theory Spec2Isabelle
  imports Main "HOL-Library.Sublist"
begin

section \<open>Strings\<close>

text \<open>
  A JavaScript string is modelled as a \<^typ>\<open>string\<close>; every \<^typ>\<open>char\<close> stands for the
  UTF-16 code unit of the same number, so the model covers the strings over the code units
  U+0000 to U+00FF.  The functions below are the ECMAScript string methods that the
  program calls, restricted to that range.
\<close>

definition isWhiteSpace :: "char \<Rightarrow> bool" where
  \<comment> \<open>ECMAScript WhiteSpace and LineTerminator below U+0100: TAB, LF, VT, FF, CR, SP, NBSP.
      It is the set removed by \<open>trim()\<close> and matched by \<open>\s\<close>.\<close>
  "isWhiteSpace c \<longleftrightarrow>
     c \<in> set [CHR 0x09, CHR 0x0A, CHR 0x0B, CHR 0x0C, CHR 0x0D, CHR 0x20, CHR 0xA0]"

definition isLineTerminator :: "char \<Rightarrow> bool" where
  \<comment> \<open>The characters that \<open>.\<close> does not match in a regular expression without the s flag.\<close>
  "isLineTerminator c \<longleftrightarrow> c = CHR 0x0A \<or> c = CHR 0x0D"

definition trim :: "string \<Rightarrow> string" where
  \<comment> \<open>\<open>s.trim()\<close>: white space is dropped from the start, then from the end.\<close>
  "trim s = rev (dropWhile isWhiteSpace (rev (dropWhile isWhiteSpace s)))"

definition toLowerChar :: "char \<Rightarrow> char" where
  \<comment> \<open>\<open>toLowerCase\<close> on one code unit below U+0100: A-Z and the Latin-1 capitals
      U+00C0 to U+00DE (the multiplication sign U+00D7 apart) move up by 32.\<close>
  "toLowerChar c =
     (let n = (of_char c :: nat)
      in if (65 \<le> n \<and> n \<le> 90) \<or> (192 \<le> n \<and> n \<le> 222 \<and> n \<noteq> 215)
         then char_of (n + 32) else c)"

definition toLowerCase :: "string \<Rightarrow> string" where
  "toLowerCase s = map toLowerChar s"

definition startsWith :: "string \<Rightarrow> string \<Rightarrow> bool" where
  \<comment> \<open>\<open>value.startsWith(p)\<close>\<close>
  "startsWith v p \<longleftrightarrow> prefix p v"

fun splitOn :: "char \<Rightarrow> string \<Rightarrow> string list" where
  \<comment> \<open>\<open>s.split(sep)\<close> for a one-character separator: never empty, \<open>"".split("/")\<close> is \<open>[""]\<close>.\<close>
  "splitOn sep [] = [[]]"
| "splitOn sep (c # cs) =
     (if c = sep then [] # splitOn sep cs
      else (case splitOn sep cs of [] \<Rightarrow> [[c]] | p # ps \<Rightarrow> (c # p) # ps))"

fun joinWith :: "string \<Rightarrow> string list \<Rightarrow> string" where
  \<comment> \<open>\<open>parts.join(sep)\<close>\<close>
  "joinWith sep [] = []"
| "joinWith sep [p] = p"
| "joinWith sep (p # q # ps) = p @ sep @ joinWith sep (q # ps)"

section \<open>Path sanitizer\<close>

definition PROJECT_ROOT_ABSOLUTE_ASSET_PREFIXES :: "string list" where
  "PROJECT_ROOT_ABSOLUTE_ASSET_PREFIXES = [''/assets/'', ''/images/'', ''/media/'', ''/data/'']"

definition isExternalAssetPath :: "string \<Rightarrow> bool" where
  "isExternalAssetPath v =
     (let lower = toLowerCase v
      in startsWith v ''//'' \<or>
         startsWith lower ''http://'' \<or>
         startsWith lower ''https://'' \<or>
         startsWith lower ''data:'' \<or>
         startsWith lower ''blob:'' \<or>
         startsWith lower ''mailto:'' \<or>
         startsWith lower ''tel:'')"

definition notQueryOrFragment :: "char \<Rightarrow> bool" where
  \<comment> \<open>the character class \<open>[^?#]\<close>\<close>
  "notQueryOrFragment c \<longleftrightarrow> c \<noteq> CHR ''?'' \<and> c \<noteq> CHR ''#''"

definition splitAssetPathAndSuffix :: "string \<Rightarrow> string \<times> string" where
  \<comment> \<open>\<open>raw.match(/^([^?#]*)(.*)$/)\<close>, returning \<open>(pathOnly, suffix)\<close>.  The first group is
      greedy and takes the longest run free of \<open>?\<close> and \<open>#\<close>; the second must reach the
      end of the input without crossing a line terminator.  When the remainder holds a
      line terminator no shorter first group helps (the remainder only grows), the match
      is \<open>null\<close> and the code falls back to \<open>pathOnly = raw\<close>, \<open>suffix = ""\<close>.\<close>
  "splitAssetPathAndSuffix raw =
     (let rest = dropWhile notQueryOrFragment raw
      in if list_ex isLineTerminator rest then (raw, [])
         else (takeWhile notQueryOrFragment raw, rest))"

definition replaceBackslashes :: "string \<Rightarrow> string" where
  \<comment> \<open>\<open>pathOnly.replace(/\\/g, "/")\<close>\<close>
  "replaceBackslashes s = map (\<lambda>c. if c = CHR 0x5C then CHR ''/'' else c) s"

definition supportedRootRelative :: "string \<Rightarrow> bool" where
  \<comment> \<open>\<open>PREFIXES.some((prefix) => relative === prefix.slice(0, -1) || relative.startsWith(prefix))\<close>\<close>
  "supportedRootRelative relative =
     list_ex (\<lambda>p. relative = butlast p \<or> startsWith relative p)
       PROJECT_ROOT_ABSOLUTE_ASSET_PREFIXES"

definition relativeCandidate :: "string \<Rightarrow> string option" where
  \<comment> \<open>The first half of \<open>normalizeProjectRelativeAsset\<close>: the value of \<open>relative\<close> when the
      segment loop starts, \<open>None\<close> when the function has returned \<open>null\<close> before it.\<close>
  "relativeCandidate raw =
     (let trimmed = trim raw
      in if trimmed = [] \<or> startsWith trimmed ''#'' \<or> isExternalAssetPath trimmed then None
         else
           let pathOnly = fst (splitAssetPathAndSuffix trimmed)
           in if pathOnly = [] then None
              else
                let relative = replaceBackslashes pathOnly
                in if startsWith relative ''/''
                   then (if \<not> supportedRootRelative relative then None
                         else Some (drop 1 relative))
                   else Some relative)"

fun normalizeParts :: "string list \<Rightarrow> string list \<Rightarrow> string list option" where
  \<comment> \<open>The \<open>for (const part of relative.split("/"))\<close> loop; the first argument is
      \<open>normalizedParts\<close> (push at the end, pop from the end), \<open>None\<close> is \<open>return null\<close>.\<close>
  "normalizeParts normalizedParts [] = Some normalizedParts"
| "normalizeParts normalizedParts (part # rest) =
     (if part = [] \<or> part = ''.'' then normalizeParts normalizedParts rest
      else if part = ''..''
      then (if normalizedParts = [] then None
            else normalizeParts (butlast normalizedParts) rest)
      else normalizeParts (normalizedParts @ [part]) rest)"

definition normalizeProjectRelativeAsset :: "string \<Rightarrow> string option" where
  "normalizeProjectRelativeAsset raw =
     (case relativeCandidate raw of
        None \<Rightarrow> None
      | Some relative \<Rightarrow>
          (case normalizeParts [] (splitOn CHR ''/'' relative) of
             None \<Rightarrow> None
           | Some normalizedParts \<Rightarrow>
               if normalizedParts = [] then None
               else Some (joinWith ''/'' normalizedParts)))"


definition retained :: "string \<Rightarrow> bool" where
  \<comment> \<open>A segment that the loop pushes: not empty, not \<open>.\<close>, not \<open>..\<close>.\<close>
  "retained p \<longleftrightarrow> p \<noteq> [] \<and> p \<noteq> ''.'' \<and> p \<noteq> ''..''"

definition weight :: "string list \<Rightarrow> nat" where
  \<comment> \<open>The length of the segments joined with one separator each, plus one.\<close>
  "weight parts = sum_list (map (\<lambda>p. Suc (length p)) parts)"

section \<open>Asset resolver\<close>

datatype load_error = LoadError string

text \<open>
  The backend command \<open>resolve_project_asset_data_url\<close> is not part of the sources; it is
  a parameter.  Its first argument is the number of backend reads made before the call, so
  that the file system may answer differently at different times; the result is the
  rejection of the promise (\<open>Inl\<close>) or the string it resolves to (\<open>Inr\<close>).
\<close>

type_synonym backend = "nat \<Rightarrow> string \<Rightarrow> string \<Rightarrow> load_error + string"

record resolver_state =
  projectAssetDataUrlCache :: "string \<rightharpoonup> string"
  backendReads :: nat

definition call :: "bool \<Rightarrow> backend \<Rightarrow> string \<Rightarrow> string \<Rightarrow> resolver_state
    \<Rightarrow> (load_error + string) \<times> resolver_state" where
  \<comment> \<open>\<open>call("resolve_project_asset_data_url", {projectPath, rawSrc})\<close>: throws outside the
      Tauri runtime, else invokes the backend (one read).\<close>
  "call isTauriRuntime invoke projectPath rawSrc s =
     (if \<not> isTauriRuntime
      then (Inl (LoadError ''Tauri runtime not detected. Launch this screen with `npm run tauri:dev`.''), s)
      else (invoke (backendReads s) projectPath rawSrc, s\<lparr>backendReads := Suc (backendReads s)\<rparr>))"

definition assetCacheKey :: "string \<Rightarrow> string \<Rightarrow> string" where
  \<comment> \<open>the template string \<open>`${projectPath}::${normalizedRelative}`\<close>\<close>
  "assetCacheKey projectPath normalizedRelative = projectPath @ ''::'' @ normalizedRelative"

definition loadAndCache :: "bool \<Rightarrow> backend \<Rightarrow> string \<Rightarrow> string \<Rightarrow> string \<Rightarrow> resolver_state
    \<Rightarrow> (load_error + string) \<times> resolver_state" where
  \<comment> \<open>The tail of \<open>resolveProjectAssetSource\<close> after a cache miss: the awaited \<open>call\<close>, whose
      rejection leaves the function at once, then \<open>set(cacheKey, nextSource)\<close> and the return.\<close>
  "loadAndCache isTauriRuntime invoke projectPath rawSrc cacheKey s =
     (case call isTauriRuntime invoke projectPath rawSrc s of
        (Inl cause, s') \<Rightarrow> (Inl cause, s')
      | (Inr nextSource, s') \<Rightarrow>
          (Inr nextSource,
           s'\<lparr>projectAssetDataUrlCache :=
                (projectAssetDataUrlCache s')(cacheKey \<mapsto> nextSource)\<rparr>))"

definition resolveProjectAssetSource :: "bool \<Rightarrow> backend \<Rightarrow> string \<Rightarrow> string \<Rightarrow> resolver_state
    \<Rightarrow> (load_error + string) \<times> resolver_state" where
  \<comment> \<open>The outcome of the returned promise (\<open>Inl\<close>: rejected, \<open>Inr\<close>: resolved) and the state
      after it has settled.  \<open>!normalizedRelative\<close>, \<open>!projectPath\<close> and \<open>if (cached)\<close> are
      truthiness tests: the empty string counts as absent.\<close>
  "resolveProjectAssetSource isTauriRuntime invoke projectPath rawSrc s =
     (case normalizeProjectRelativeAsset rawSrc of
        None \<Rightarrow> (Inr rawSrc, s)
      | Some normalizedRelative \<Rightarrow>
          if normalizedRelative = [] \<or> projectPath = [] \<or> \<not> isTauriRuntime then (Inr rawSrc, s)
          else
            let cacheKey = assetCacheKey projectPath normalizedRelative
            in case projectAssetDataUrlCache s cacheKey of
                 None \<Rightarrow> loadAndCache isTauriRuntime invoke projectPath rawSrc cacheKey s
               | Some cached \<Rightarrow>
                   if cached \<noteq> [] then (Inr cached, s)
                   else loadAndCache isTauriRuntime invoke projectPath rawSrc cacheKey s)"

fun resolveMany :: "bool \<Rightarrow> (backend \<times> string \<times> string) list \<Rightarrow> resolver_state \<Rightarrow> resolver_state" where
  \<comment> \<open>The state after a sequence of resolve calls, each run to completion.\<close>
  "resolveMany isTauriRuntime [] s = s"
| "resolveMany isTauriRuntime ((invoke, projectPath, rawSrc) # calls) s =
     resolveMany isTauriRuntime calls
       (snd (resolveProjectAssetSource isTauriRuntime invoke projectPath rawSrc s))"

definition ProjectAssetImage_resolvedSrc :: "bool \<Rightarrow> backend \<Rightarrow> string \<Rightarrow> string option \<Rightarrow> bool
    \<Rightarrow> resolver_state \<Rightarrow> string \<times> resolver_state" where
  \<comment> \<open>The state variable \<open>resolvedSrc\<close> of \<open>ProjectAssetImage\<close> once its effect has run and the
      promise has settled.  \<open>src\<close> is \<open>props.src\<close> (\<open>None\<close> when it is not a string),
      \<open>cancelled\<close> tells whether the cleanup ran before the promise settled.\<close>
  "ProjectAssetImage_resolvedSrc isTauriRuntime invoke projectPath src cancelled s =
     (let source = (case src of Some v \<Rightarrow> v | None \<Rightarrow> [])
      in case src of
           None \<Rightarrow> (source, s)
         | Some v \<Rightarrow>
             (case resolveProjectAssetSource isTauriRuntime invoke projectPath v s of
                (Inr nextSource, s') \<Rightarrow> (if cancelled then v else nextSource, s')
              | (Inl cause, s') \<Rightarrow> (if cancelled then v else source, s')))"

definition handleOpenAsset_src :: "bool \<Rightarrow> backend \<Rightarrow> string \<Rightarrow> string \<Rightarrow> resolver_state
    \<Rightarrow> string \<times> resolver_state" where
  \<comment> \<open>The \<open>src\<close> that \<open>handleOpenAsset\<close> gives to the lightbox: \<open>source || asset.src\<close> after
      the \<open>try\<close>/\<open>catch\<close> around the resolver.\<close>
  "handleOpenAsset_src isTauriRuntime invoke projectPath assetSrc s =
     (case resolveProjectAssetSource isTauriRuntime invoke projectPath assetSrc s of
        (Inr source, s') \<Rightarrow> (if source \<noteq> [] then source else assetSrc, s')
      | (Inl cause, s') \<Rightarrow> (assetSrc, s'))"

definition initialResolverState :: resolver_state where
  \<comment> \<open>\<open>new Map()\<close>, no read made yet\<close>
  "initialResolverState = \<lparr>projectAssetDataUrlCache = Map.empty, backendReads = 0\<rparr>"

definition backendMissingFile :: backend where
  \<comment> \<open>A backend whose every read fails.\<close>
  "backendMissingFile n projectPath rawSrc = Inl (LoadError ''file not found'')"

definition backendEmptyPayload :: backend where
  \<comment> \<open>A backend whose every read succeeds with the empty string.\<close>
  "backendEmptyPayload n projectPath rawSrc = Inr []"

definition backendDataUrl :: backend where
  \<comment> \<open>A backend whose every read succeeds with the same data URL.\<close>
  "backendDataUrl n projectPath rawSrc = Inr ''data:image/png;base64,AAAA''"

section \<open>Table of contents\<close>

record SlideOutlineEntry =
  index :: int
  title :: string

fun digitsOf :: "nat \<Rightarrow> string" where
  \<comment> \<open>the decimal digits of a natural number\<close>
  "digitsOf n =
     (if n < 10 then [''0123456789'' ! n]
      else digitsOf (n div 10) @ [''0123456789'' ! (n mod 10)])"

definition numberToString :: "int \<Rightarrow> string" where
  \<comment> \<open>\<open>String(n)\<close> for an integer\<close>
  "numberToString n = (if n < 0 then ''-'' @ digitsOf (nat (- n)) else digitsOf (nat n))"

definition slideTocEntries :: "SlideOutlineEntry list \<Rightarrow> int \<Rightarrow> SlideOutlineEntry list" where
  \<comment> \<open>The memo \<open>slideTocEntries\<close> of \<open>Home\<close>, from \<open>slideOutline\<close> and \<open>visibleSlideCount\<close>;
      \<open>Array.from({ length: n }, f)\<close> has no element when \<open>n\<close> is not positive.\<close>
  "slideTocEntries slideOutline visibleSlideCount =
     (if length slideOutline > 0 then slideOutline
      else map (\<lambda>i. \<lparr>index = int i, title = ''Slide '' @ numberToString (int i + 1)\<rparr>)
             [0..<nat visibleSlideCount])"

definition SlideTocRail :: "SlideOutlineEntry list \<Rightarrow> int \<Rightarrow> (SlideOutlineEntry \<times> bool) list option" where
  \<comment> \<open>What the component renders: \<open>None\<close> for \<open>null\<close>, else the list items, each with its
      entry (index, title) and whether it carries the class \<open>active\<close>.\<close>
  "SlideTocRail entries activeIndex =
     (if length entries \<le> 1 then None
      else Some (map (\<lambda>entry. (entry, index entry = activeIndex)) entries))"

section \<open>Active slide index\<close>

record home_state =
  activeSlideIndex :: int
  embeddedSlideCount :: int
  slideOutline :: "SlideOutlineEntry list"
  presenterMode :: bool
  selectedProjectDetail :: "int option"
  selectedProject :: "int option"
  expandedAsset :: bool
  settingsOpen :: bool
  slideElements :: "string option list"
  pathChanged :: bool
  deckChanged :: bool
  clampedFor :: "int option"

text \<open>
  The state variables of \<open>Home\<close> that the slide index depends on, and what its effects
  read besides them:
  \<^item> \<open>selectedProjectDetail\<close> and \<open>selectedProject\<close> hold the \<open>slide_count\<close> of the project
    detail and of the project summary, numbers that the backend gives (\<open>None\<close> when the
    variable is \<open>null\<close>); \<open>expandedAsset\<close> and \<open>settingsOpen\<close> tell whether the state
    variables of these names are set;
  \<^item> \<open>slideElements\<close> is the document: the \<open>.slide\<close> elements below \<open>.embedded-preview-deck\<close>,
    each with the text of its first heading.  \<open>EmbeddedDeckPreview\<close> has no \<open>key\<close>, so the
    deck of a project stays in the document until the preview commits another render;
  \<^item> \<open>pathChanged\<close>, \<open>deckChanged\<close> and \<open>clampedFor\<close> are the dependency arrays of three
    effects: whether \<open>selectedProject?.path\<close> or the preview's \<open>CompiledDeck\<close> differ from
    the render before, and the \<open>maxSlideIndex\<close> for which the clamp effect ran last.
\<close>

definition fallbackCount :: "home_state \<Rightarrow> int" where
  \<comment> \<open>\<open>selectedProjectDetail?.slide_count || selectedProject?.slide_count || 0\<close>: \<open>undefined\<close>
      and \<open>0\<close> are falsy\<close>
  "fallbackCount s =
     (case selectedProjectDetail s of
        Some d \<Rightarrow> if d \<noteq> 0 then d else (case selectedProject s of Some p \<Rightarrow> p | None \<Rightarrow> 0)
      | None \<Rightarrow> (case selectedProject s of Some p \<Rightarrow> p | None \<Rightarrow> 0))"

definition visibleSlideCount :: "home_state \<Rightarrow> int" where
  "visibleSlideCount s =
     (if embeddedSlideCount s > 0 then embeddedSlideCount s else fallbackCount s)"

definition maxSlideIndex :: "home_state \<Rightarrow> int" where
  "maxSlideIndex s = max (visibleSlideCount s - 1) 0"

definition initialHome :: home_state where
  \<comment> \<open>the \<open>useState\<close> initial values, before the effects of the first render\<close>
  "initialHome =
     \<lparr>activeSlideIndex = 0, embeddedSlideCount = 0, slideOutline = [], presenterMode = False,
      selectedProjectDetail = None, selectedProject = None, expandedAsset = False,
      settingsOpen = False, slideElements = [], pathChanged = True, deckChanged = False,
      clampedFor = None\<rparr>"

datatype key = ArrowRight | PageDown | Space | ArrowLeft | PageUp | Escape | OtherKey

datatype home_event =
    ViewportFrame nat
  | TocSelect nat
  | SlidePick nat
  | KeyDown key
  | TogglePresenterMode nat
  | ProjectSwitched "int option"
  | SummaryRefreshed int
  | DetailLoaded "int option"
  | DeckCommitted "string option list"
  | ResetEffect
  | SlideEffect
  | ClampEffect

text \<open>
  What happens to \<open>Home\<close>, one state update or one effect at a time, in the order in
  which React queues them:
  \<^item> \<open>ViewportFrame n\<close>: the animation frame callback \<open>updateActiveSlide\<close>, where the slide
    nearest to the centre of the viewport is the one at position \<open>n\<close> of the document;
  \<^item> \<open>TocSelect n\<close>: a click on the button at position \<open>n\<close> of the rendered rail, which
    calls \<open>handleTocSelect(entry.index)\<close>;
  \<^item> \<open>SlidePick n\<close>: a click inside the slide at position \<open>n\<close> of the document, past the
    branches for images, videos and links (a click outside every slide, no slide being at
    position \<open>n\<close>, changes nothing);
  \<^item> \<open>KeyDown k\<close>: the part of \<open>onKeyDown\<close> from the Escape branches on;
  \<^item> \<open>TogglePresenterMode n\<close>: \<open>togglePresenterMode()\<close>, \<open>n\<close> as for \<open>ViewportFrame\<close>;
  \<^item> \<open>ProjectSwitched c\<close>: \<open>selectedProject?.path\<close> changes, to no project (\<open>None\<close>) or to a
    project whose summary has slide count \<open>c\<close>; \<open>selectedProjectDetail\<close> keeps its value;
  \<^item> \<open>SummaryRefreshed c\<close>: the project list is loaded again and gives the selected
    project the slide count \<open>c\<close>;
  \<^item> \<open>DetailLoaded d\<close>: \<open>setSelectedProjectDetail\<close>, with the answer of \<open>load_project\<close>
    (\<open>None\<close> for \<open>null\<close>: the call failed or no project is selected);
  \<^item> \<open>DeckCommitted hs\<close>: \<open>EmbeddedDeckPreview\<close> commits a render with another \<open>CompiledDeck\<close>,
    whose slides have the headings \<open>hs\<close> (no slide while the deck is loading or has failed
    to compile);
  \<^item> \<open>ResetEffect\<close>, \<open>SlideEffect\<close>, \<open>ClampEffect\<close>: the effect of \<open>Home\<close> on
    \<open>[selectedProject?.path]\<close> that resets the slide state, the effect of the preview on
    \<open>[CompiledDeck, \<dots>]\<close> that reports count and outline, and the effect of \<open>Home\<close> on
    \<open>[maxSlideIndex]\<close>; each does nothing when its dependencies have not changed.
\<close>

definition buildOutline :: "string option list \<Rightarrow> SlideOutlineEntry list" where
  \<comment> \<open>the loop that fills \<open>nextOutline\<close>\<close>
  "buildOutline slides =
     map (\<lambda>i. \<lparr>index = int i,
               title = (case slides ! i of
                          None \<Rightarrow> ''Slide '' @ numberToString (int i + 1)
                        | Some text \<Rightarrow>
                            if length (trim text) > 0 then trim text
                            else ''Slide '' @ numberToString (int i + 1))\<rparr>)
       [0..<length slides]"

definition getCurrentCenteredSlideIndex :: "home_state \<Rightarrow> nat \<Rightarrow> int" where
  \<comment> \<open>\<open>-1\<close> without slides in the document, else the index of the nearest slide: its
      \<open>data-slide-index\<close>, which the slide effect sets to the position, or the position.\<close>
  "getCurrentCenteredSlideIndex s nearest =
     (if slideElements s = [] then - 1
      else int (min nearest (length (slideElements s) - 1)))"

definition handleKeyDown :: "key \<Rightarrow> home_state \<Rightarrow> home_state" where
  "handleKeyDown k s =
     (if k = Escape \<and> settingsOpen s then s\<lparr>settingsOpen := False\<rparr>
      else if k = Escape \<and> expandedAsset s then s\<lparr>expandedAsset := False\<rparr>
      else if k = Escape \<and> presenterMode s then s\<lparr>presenterMode := False\<rparr>
      else if expandedAsset s then s
      else if \<not> presenterMode s \<or> selectedProject s = None then s
      else if k = ArrowRight \<or> k = PageDown \<or> k = Space
      then s\<lparr>activeSlideIndex := min (activeSlideIndex s + 1) (maxSlideIndex s)\<rparr>
      else if k = ArrowLeft \<or> k = PageUp
      then s\<lparr>activeSlideIndex := max (activeSlideIndex s - 1) 0\<rparr>
      else s)"

definition handleTocSelect :: "nat \<Rightarrow> home_state \<Rightarrow> home_state" where
  \<comment> \<open>\<open>PreviewWorkspace\<close> renders the rail for a selected project, \<open>SlideTocRail\<close> renders
      buttons for more than one entry; the handler stores the index of the entry.\<close>
  "handleTocSelect n s =
     (let entries = slideTocEntries (slideOutline s) (visibleSlideCount s)
      in if selectedProject s = None \<or> length entries \<le> 1 \<or> length entries \<le> n then s
         else s\<lparr>activeSlideIndex := index (entries ! n)\<rparr>)"

fun handleEvent :: "home_event \<Rightarrow> home_state \<Rightarrow> home_state" where
  "handleEvent (ViewportFrame nearest) s =
     (if selectedProject s = None \<or> presenterMode s then s
      else if getCurrentCenteredSlideIndex s nearest \<ge> 0
      then s\<lparr>activeSlideIndex := getCurrentCenteredSlideIndex s nearest\<rparr> else s)"
| "handleEvent (TocSelect n) s = handleTocSelect n s"
| "handleEvent (SlidePick clicked) s =
     (if presenterMode s then s
      else if clicked < length (slideElements s) then s\<lparr>activeSlideIndex := int clicked\<rparr>
      else s)"
| "handleEvent (KeyDown k) s = handleKeyDown k s"
| "handleEvent (TogglePresenterMode nearest) s =
     (if presenterMode s then s\<lparr>presenterMode := False\<rparr>
      else (if getCurrentCenteredSlideIndex s nearest \<ge> 0
            then s\<lparr>activeSlideIndex := getCurrentCenteredSlideIndex s nearest\<rparr> else s)
             \<lparr>presenterMode := True\<rparr>)"
| "handleEvent (ProjectSwitched c) s =
     s\<lparr>selectedProject := c, pathChanged := True,
       slideElements := (if c = None then [] else slideElements s),
       deckChanged := (c \<noteq> None \<and> (deckChanged s \<or> selectedProject s = None))\<rparr>"
| "handleEvent (SummaryRefreshed c) s =
     (if selectedProject s = None then s else s\<lparr>selectedProject := Some c\<rparr>)"
| "handleEvent (DetailLoaded d) s = s\<lparr>selectedProjectDetail := d\<rparr>"
| "handleEvent (DeckCommitted slides) s =
     (if selectedProject s = None then s
      else s\<lparr>slideElements := slides, deckChanged := True\<rparr>)"
| "handleEvent ResetEffect s =
     (if pathChanged s
      then s\<lparr>activeSlideIndex := 0, embeddedSlideCount := 0, slideOutline := [],
             presenterMode := False, pathChanged := False\<rparr>
      else s)"
| "handleEvent SlideEffect s =
     (if deckChanged s
      then s\<lparr>embeddedSlideCount := int (length (slideElements s)),
             slideOutline := buildOutline (slideElements s), deckChanged := False\<rparr>
      else s)"
| "handleEvent ClampEffect s =
     (if clampedFor s = Some (maxSlideIndex s) then s
      else s\<lparr>activeSlideIndex := min (activeSlideIndex s) (maxSlideIndex s),
             clampedFor := Some (maxSlideIndex s)\<rparr>)"

fun run :: "home_state \<Rightarrow> home_event list \<Rightarrow> home_state" where
  "run s [] = s"
| "run s (e # es) = run (handleEvent e s) es"

definition safeIndex :: "int \<Rightarrow> nat \<Rightarrow> int" where
  \<comment> \<open>\<open>Math.min(activeSlideIndex, slides.length - 1)\<close>, the slide that the preview marks as
      active; the effect returns before it when there is no slide\<close>
  "safeIndex active slidesLength = min active (int slidesLength - 1)"

definition indexInRange :: "home_state \<Rightarrow> bool" where
  "indexInRange s \<longleftrightarrow> 0 \<le> activeSlideIndex s \<and> activeSlideIndex s \<le> maxSlideIndex s"

definition outlineSynced :: "home_state \<Rightarrow> bool" where
  \<comment> \<open>count and outline come from the same list of slide elements\<close>
  "outlineSynced s \<longleftrightarrow>
     embeddedSlideCount s = int (length (slideOutline s)) \<and>
     map index (slideOutline s) = map int [0..<length (slideOutline s)]"

definition clampUpToDate :: "home_state \<Rightarrow> bool" where
  \<comment> \<open>the clamp effect has run for the present \<open>maxSlideIndex\<close>\<close>
  "clampUpToDate s \<longleftrightarrow> clampedFor s = Some (maxSlideIndex s)"

fun storesSlidePosition :: "home_event \<Rightarrow> bool" where
  \<comment> \<open>the events whose handler stores a position in the document\<close>
  "storesSlidePosition (ViewportFrame n) = True"
| "storesSlidePosition (SlidePick n) = True"
| "storesSlidePosition (TogglePresenterMode n) = True"
| "storesSlidePosition _ = False"

definition openFirstDeck :: "home_event list" where
  \<comment> \<open>\<open>Home\<close> is mounted; a project of three slides is selected, loaded, compiled and
      rendered; the user scrolls to its third slide.\<close>
  "openFirstDeck =
     [ResetEffect, ClampEffect,
      ProjectSwitched (Some 3), ResetEffect, SlideEffect, ClampEffect,
      DetailLoaded (Some 3), ClampEffect,
      DeckCommitted [Some ''One'', Some ''Two'', Some ''Three''], SlideEffect, ClampEffect,
      ViewportFrame 2]"

definition switchProject :: "home_event list" where
  \<comment> \<open>The user selects a project of two slides.  The effects of that render reset the
      slide state and register the frame callback again, which finds the third slide of the
      first deck, still in the document; then \<open>load_project\<close> answers.\<close>
  "switchProject =
     [ProjectSwitched (Some 2), ResetEffect, ClampEffect, ViewportFrame 2, DetailLoaded (Some 2)]"

definition scrollOldDeck :: "home_event list" where
  \<comment> \<open>The clamp effect of the render with the new detail runs, and a scroll of the first
      deck, in the document until the preview commits its next render, gives a frame.\<close>
  "scrollOldDeck = [ClampEffect, ViewportFrame 2]"

definition renderSecondDeck :: "home_event list" where
  \<comment> \<open>the preview commits the loading notice and then the two slides of the new deck\<close>
  "renderSecondDeck =
     [DeckCommitted [], SlideEffect, ClampEffect,
      DeckCommitted [Some ''Uno'', Some ''Due''], SlideEffect, ClampEffect]"

definition presentFifthSlide :: "home_event list" where
  \<comment> \<open>A project of five slides is opened and rendered; the user scrolls to its fifth
      slide and enters the presenter mode.\<close>
  "presentFifthSlide =
     [ResetEffect, ClampEffect,
      ProjectSwitched (Some 5), ResetEffect, SlideEffect, ClampEffect,
      DetailLoaded (Some 5), ClampEffect,
      DeckCommitted [None, None, None, None, None], SlideEffect, ClampEffect,
      ViewportFrame 4, TogglePresenterMode 4]"

definition recompileToThree :: "home_event list" where
  \<comment> \<open>an edit that leaves three slides is loaded, compiled and rendered\<close>
  "recompileToThree =
     [DetailLoaded (Some 3), ClampEffect,
      DeckCommitted [], SlideEffect, ClampEffect,
      DeckCommitted [None, None, None], SlideEffect, ClampEffect]"

section \<open>Compiling the deck\<close>

datatype 'd compile_result = Compiled 'd | CompileFailed string

record effect_run =
  cancelled :: bool
  inFlight :: bool

record 'd preview_state =
  CompiledDeck :: "'d option"
  error :: string
  runs :: "effect_run list"

text \<open>
  \<open>runs\<close> holds one entry for every run of the compile effect of \<open>EmbeddedDeckPreview\<close>, in the
  order of the runs: the variable \<open>cancelled\<close> of its closure, and whether its
  \<open>evaluate(source)\<close> is still awaited.  A run is named by its position.
\<close>

definition initialPreview :: "'d preview_state" where
  "initialPreview = \<lparr>CompiledDeck = None, error = [], runs = []\<rparr>"

definition cleanupLast :: "effect_run list \<Rightarrow> effect_run list" where
  \<comment> \<open>the cleanup \<open>() => { cancelled = true; }\<close> of the latest run\<close>
  "cleanupLast rs =
     (if rs = [] then [] else rs[length rs - 1 := (rs ! (length rs - 1))\<lparr>cancelled := True\<rparr>])"

definition sourceChanged :: "string \<Rightarrow> 'd preview_state \<Rightarrow> 'd preview_state" where
  \<comment> \<open>The effect runs again for a new \<open>source\<close>: the cleanup of the run before, then
      \<open>compileSource()\<close> up to its first \<open>await\<close>.\<close>
  "sourceChanged source s =
     (if length (trim source) = 0
      then s\<lparr>error := ''Project has an empty page.mdx.'', CompiledDeck := None,
             runs := cleanupLast (runs s) @ [\<lparr>cancelled = False, inFlight = False\<rparr>]\<rparr>
      else s\<lparr>error := [], CompiledDeck := None,
             runs := cleanupLast (runs s) @ [\<lparr>cancelled = False, inFlight = True\<rparr>]\<rparr>)"

definition settle :: "nat \<Rightarrow> 'd compile_result \<Rightarrow> 'd preview_state \<Rightarrow> 'd preview_state" where
  \<comment> \<open>The awaited \<open>evaluate\<close> of run \<open>i\<close> settles: the rest of \<open>compileSource()\<close>.\<close>
  "settle i result s =
     (if i < length (runs s) \<and> inFlight (runs s ! i)
      then
        let s' = s\<lparr>runs := (runs s)[i := (runs s ! i)\<lparr>inFlight := False\<rparr>]\<rparr>
        in if cancelled (runs s ! i) then s'
           else (case result of
                   Compiled module \<Rightarrow> s'\<lparr>CompiledDeck := Some module\<rparr>
                 | CompileFailed message \<Rightarrow> s'\<lparr>error := message\<rparr>)
      else s)"

definition rendered :: "'d preview_state \<Rightarrow> 'd option \<times> string" where
  \<comment> \<open>what the component shows: the compiled deck and the error message\<close>
  "rendered s = (CompiledDeck s, error s)"

definition staleCancelled :: "'d preview_state \<Rightarrow> bool" where
  \<comment> \<open>every run but the latest has been cancelled\<close>
  "staleCancelled s \<longleftrightarrow> list_all cancelled (butlast (runs s))"

section \<open>Design tokens and their style sheet\<close>

datatype token_key =
    slideBg | slideBorder | slideRadius | slidePadding | slideLayoutGap
  | slideCardBg | slideCardBorder | slideCardRadius | slideCardPadding
  | slideFontFamily | slideHeadingFont | slideCodeFont | slideMetaFont | slideMetaSize
  | slideFg | slideH1Color | slideH2Color | slideH3Color | slideBodyColor | slideMetaColor
  | slideAccent | slideLinkColor | slideCodeBg
  | slidePalette1 | slidePalette2 | slidePalette3 | slidePalette4 | slidePalette5

text \<open>
  A \<open>SlideTokens\<close> object has a string under every one of its 28 keys, and
  \<open>Partial<SlideTokens>\<close> has a string under some of them: a total and a partial map.
\<close>

type_synonym SlideTokens = "token_key \<Rightarrow> string"

definition TOKEN_TO_VAR :: "(token_key \<times> string) list" where
  \<comment> \<open>\<open>Object.entries(TOKEN_TO_VAR)\<close>, in the order of the object literal\<close>
  "TOKEN_TO_VAR =
     [(slideBg, ''--slide-bg''),
      (slideBorder, ''--slide-border''),
      (slideRadius, ''--slide-radius''),
      (slidePadding, ''--slide-padding''),
      (slideLayoutGap, ''--slide-layout-gap''),
      (slideCardBg, ''--slide-card-bg''),
      (slideCardBorder, ''--slide-card-border''),
      (slideCardRadius, ''--slide-card-radius''),
      (slideCardPadding, ''--slide-card-padding''),
      (slideFontFamily, ''--slide-font-family''),
      (slideHeadingFont, ''--slide-heading-font''),
      (slideCodeFont, ''--slide-code-font''),
      (slideMetaFont, ''--slide-meta-font''),
      (slideMetaSize, ''--slide-meta-size''),
      (slideFg, ''--slide-fg''),
      (slideH1Color, ''--slide-h1-color''),
      (slideH2Color, ''--slide-h2-color''),
      (slideH3Color, ''--slide-h3-color''),
      (slideBodyColor, ''--slide-body-color''),
      (slideMetaColor, ''--slide-meta-color''),
      (slideAccent, ''--slide-accent''),
      (slideLinkColor, ''--slide-link-color''),
      (slideCodeBg, ''--slide-code-bg''),
      (slidePalette1, ''--slide-palette-1''),
      (slidePalette2, ''--slide-palette-2''),
      (slidePalette3, ''--slide-palette-3''),
      (slidePalette4, ''--slide-palette-4''),
      (slidePalette5, ''--slide-palette-5'')]"

fun DEFAULT_TOKENS :: SlideTokens where
  \<open>DEFAULT_TOKENS slideBg = ''#0e0d0a''\<close>
| \<open>DEFAULT_TOKENS slideBorder = ''#efefeb1f''\<close>
| \<open>DEFAULT_TOKENS slideRadius = ''10px''\<close>
| \<open>DEFAULT_TOKENS slidePadding = ''32px''\<close>
| \<open>DEFAULT_TOKENS slideLayoutGap = ''16px''\<close>
| \<open>DEFAULT_TOKENS slideCardBg = ''#ffffff08''\<close>
| \<open>DEFAULT_TOKENS slideCardBorder = ''#00000000''\<close>
| \<open>DEFAULT_TOKENS slideCardRadius = ''10px''\<close>
| \<open>DEFAULT_TOKENS slideCardPadding = ''16px''\<close>
| \<open>DEFAULT_TOKENS slideFontFamily = ''"Inter", system-ui, sans-serif''\<close>
| \<open>DEFAULT_TOKENS slideHeadingFont = ''var(--slide-font-family)''\<close>
| \<open>DEFAULT_TOKENS slideCodeFont = ''"Fira Code", monospace''\<close>
| \<open>DEFAULT_TOKENS slideMetaFont = ''var(--slide-code-font)''\<close>
| \<open>DEFAULT_TOKENS slideMetaSize = ''0.78rem''\<close>
| \<open>DEFAULT_TOKENS slideFg = ''#edecec''\<close>
| \<open>DEFAULT_TOKENS slideH1Color = ''#ffffff''\<close>
| \<open>DEFAULT_TOKENS slideH2Color = ''#d7d6d5''\<close>
| \<open>DEFAULT_TOKENS slideH3Color = ''#b0afab''\<close>
| \<open>DEFAULT_TOKENS slideBodyColor = ''#c4c3bf''\<close>
| \<open>DEFAULT_TOKENS slideMetaColor = ''#c4c3bfe0''\<close>
| \<open>DEFAULT_TOKENS slideAccent = ''#7b9cbc''\<close>
| \<open>DEFAULT_TOKENS slideLinkColor = ''var(--slide-accent)''\<close>
| \<open>DEFAULT_TOKENS slideCodeBg = ''#ffffff0f''\<close>
| \<open>DEFAULT_TOKENS slidePalette1 = ''#7b9cbc''\<close>
| \<open>DEFAULT_TOKENS slidePalette2 = ''#63b18a''\<close>
| \<open>DEFAULT_TOKENS slidePalette3 = ''#e1b86f''\<close>
| \<open>DEFAULT_TOKENS slidePalette4 = ''#d68080''\<close>
| \<open>DEFAULT_TOKENS slidePalette5 = ''#b08cd6''\<close>

definition cssLine :: "SlideTokens \<Rightarrow> token_key \<times> string \<Rightarrow> string" where
  \<comment> \<open>the template string \<open>`  ${varName}: ${tokens[key]};`\<close> for the entry \<open>[key, varName]\<close>\<close>
  "cssLine tokens entry = ''  '' @ snd entry @ '': '' @ tokens (fst entry) @ '';''"

definition tokensToCss :: "SlideTokens \<Rightarrow> string" where
  "tokensToCss tokens =
     (let lines = map (cssLine tokens) TOKEN_TO_VAR
      in '':root {'' @ [CHR 0x0A] @ joinWith [CHR 0x0A] lines @ [CHR 0x0A] @ ''}'' @ [CHR 0x0A])"

text \<open>
  \<open>parseCssToTokens\<close> runs the regular expression
  \<open>/--([\w-]+)\s*:\s*(.+?)\s*;/g\<close> with \<open>exec\<close> in a loop.  The matcher below follows the
  backtracking order of ECMAScript: a greedy quantifier tries the longest repetition first
  and then shorter ones, the lazy \<open>.+?\<close> tries the shortest first, and the first
  alternative that lets the rest of the pattern match wins.  \<open>firstSome f ks\<close> is this
  search over the candidate repetition counts \<open>ks\<close>.
\<close>

definition isWordChar :: "char \<Rightarrow> bool" where
  \<comment> \<open>\<open>\w\<close>, that is \<open>[A-Za-z0-9_]\<close>\<close>
  "isWordChar c =
     (let n = (of_char c :: nat)
      in (48 \<le> n \<and> n \<le> 57) \<or> (65 \<le> n \<and> n \<le> 90) \<or> n = 95 \<or> (97 \<le> n \<and> n \<le> 122))"

definition isNameChar :: "char \<Rightarrow> bool" where
  \<comment> \<open>the class \<open>[\w-]\<close>\<close>
  "isNameChar c \<longleftrightarrow> isWordChar c \<or> c = CHR ''-''"

fun firstSome :: "('a \<Rightarrow> 'b option) \<Rightarrow> 'a list \<Rightarrow> 'b option" where
  "firstSome f [] = None"
| "firstSome f (x # xs) = (case f x of Some y \<Rightarrow> Some y | None \<Rightarrow> firstSome f xs)"

definition greedyLengths :: "nat \<Rightarrow> (char \<Rightarrow> bool) \<Rightarrow> string \<Rightarrow> nat list" where
  \<comment> \<open>the repetition counts of a greedy quantifier over class \<open>P\<close> at the start of \<open>s\<close>:
      from the longest run down to \<open>least\<close>\<close>
  "greedyLengths least P s = rev [least..<Suc (length (takeWhile P s))]"

definition lazyLengths :: "nat \<Rightarrow> (char \<Rightarrow> bool) \<Rightarrow> string \<Rightarrow> nat list" where
  \<comment> \<open>the repetition counts of a lazy quantifier: from \<open>least\<close> up to the longest run\<close>
  "lazyLengths least P s = [least..<Suc (length (takeWhile P s))]"

text \<open>
  The pattern is matched from its end: \<open>matchSemicolon\<close> is \<open>\s*;\<close>, \<open>matchValue\<close> is
  \<open>\s*(.+?)\s*;\<close>, \<open>matchColon\<close> is \<open>\s*:\s*(.+?)\s*;\<close> and \<open>matchHere\<close> is the whole
  pattern at the start of the given string.  A match gives the two groups and the input
  left after it.
\<close>

definition matchSemicolon :: "string \<Rightarrow> string \<Rightarrow> string \<Rightarrow> (string \<times> string \<times> string) option" where
  "matchSemicolon name val s =
     firstSome (\<lambda>w. case drop w s of
                       c # rest \<Rightarrow> if c = CHR '';'' then Some (name, val, rest) else None
                     | [] \<Rightarrow> None)
       (greedyLengths 0 isWhiteSpace s)"

definition matchValue :: "string \<Rightarrow> string \<Rightarrow> (string \<times> string \<times> string) option" where
  "matchValue name s =
     firstSome (\<lambda>w.
        firstSome (\<lambda>v. matchSemicolon name (take v (drop w s)) (drop v (drop w s)))
          (lazyLengths 1 (\<lambda>c. \<not> isLineTerminator c) (drop w s)))
       (greedyLengths 0 isWhiteSpace s)"

definition matchColon :: "string \<Rightarrow> string \<Rightarrow> (string \<times> string \<times> string) option" where
  "matchColon name s =
     firstSome (\<lambda>w. case drop w s of
                       c # rest \<Rightarrow> if c = CHR '':'' then matchValue name rest else None
                     | [] \<Rightarrow> None)
       (greedyLengths 0 isWhiteSpace s)"

definition matchHere :: "string \<Rightarrow> (string \<times> string \<times> string) option" where
  "matchHere s =
     (if take 2 s = ''--''
      then firstSome (\<lambda>n. matchColon (take n (drop 2 s)) (drop n (drop 2 s)))
             (greedyLengths 1 isNameChar (drop 2 s))
      else None)"

text \<open>A match consumes input: what the loop over the matches needs to terminate.\<close>

lemma firstSome_SomeD: "firstSome f xs = Some y \<Longrightarrow> \<exists>x\<in>set xs. f x = Some y"
  by (induction xs) (auto split: option.splits)

lemma drop_Cons_shorter:
  assumes "drop w s = c # rest"
  shows "length rest < length s"
proof -
  from assms have "length (drop w s) = Suc (length rest)" by simp
  then show ?thesis by simp
qed

lemma matchSemicolon_shorter:
  assumes "matchSemicolon name val s = Some (n, v, rest)"
  shows "length rest < length s"
proof -
  from firstSome_SomeD[OF assms[unfolded matchSemicolon_def]]
  obtain w where w: "(case drop w s of [] \<Rightarrow> None
      | c # r \<Rightarrow> if c = CHR '';'' then Some (name, val, r) else None) = Some (n, v, rest)"
    by blast
  then obtain c where "drop w s = c # rest"
    by (cases "drop w s") (auto split: if_splits)
  then show ?thesis by (rule drop_Cons_shorter)
qed

lemma matchValue_shorter:
  assumes "matchValue name s = Some (n, v, rest)"
  shows "length rest < length s"
proof -
  from firstSome_SomeD[OF assms[unfolded matchValue_def]]
  obtain w where "firstSome (\<lambda>k. matchSemicolon name (take k (drop w s)) (drop k (drop w s)))
          (lazyLengths 1 (\<lambda>c. \<not> isLineTerminator c) (drop w s)) = Some (n, v, rest)"
    by blast
  from firstSome_SomeD[OF this]
  obtain k where "matchSemicolon name (take k (drop w s)) (drop k (drop w s)) = Some (n, v, rest)"
    by blast
  from matchSemicolon_shorter[OF this] show ?thesis by simp
qed

lemma matchColon_shorter:
  assumes "matchColon name s = Some (n, v, rest)"
  shows "length rest < length s"
proof -
  from firstSome_SomeD[OF assms[unfolded matchColon_def]]
  obtain w where w: "(case drop w s of [] \<Rightarrow> None
      | c # r \<Rightarrow> if c = CHR '':'' then matchValue name r else None) = Some (n, v, rest)"
    by blast
  then obtain c r where d: "drop w s = c # r" and m: "matchValue name r = Some (n, v, rest)"
    by (cases "drop w s") (auto split: if_splits)
  from matchValue_shorter[OF m] drop_Cons_shorter[OF d] show ?thesis by simp
qed

lemma matchHere_shorter:
  assumes "matchHere s = Some (n, v, rest)"
  shows "length rest < length s"
proof -
  from assms have "firstSome (\<lambda>k. matchColon (take k (drop 2 s)) (drop k (drop 2 s)))
             (greedyLengths 1 isNameChar (drop 2 s)) = Some (n, v, rest)"
    by (simp add: matchHere_def split: if_splits)
  from firstSome_SomeD[OF this]
  obtain k where "matchColon (take k (drop 2 s)) (drop k (drop 2 s)) = Some (n, v, rest)" by blast
  from matchColon_shorter[OF this] show ?thesis by simp
qed

text \<open>
  \<open>execAll\<close> is the list of the matches \<open>(m[1], m[2])\<close> that the \<open>while\<close> loop sees: the
  leftmost match from \<open>lastIndex\<close> on, then the search goes on behind it.
\<close>

function execAll :: "string \<Rightarrow> (string \<times> string) list" where
  "execAll [] = []"
| "execAll (c # cs) =
     (case matchHere (c # cs) of
        Some (name, val, rest) \<Rightarrow> (name, val) # execAll rest
      | None \<Rightarrow> execAll cs)"
  by pat_completeness auto
termination
proof (relation "measure length")
  show "wf (measure length)" by simp
next
  fix c cs
  show "(cs, c # cs) \<in> measure length" by simp
next
  fix c cs x2 x y x2a xa ya
  assume "matchHere (c # cs) = Some x2" "(x, y) = x2" "(xa, ya) = y"
  then have "matchHere (c # cs) = Some (x, xa, ya)" by simp
  from matchHere_shorter[OF this] show "(ya, c # cs) \<in> measure length" by simp
qed

definition varToToken :: "string \<rightharpoonup> token_key" where
  \<comment> \<open>\<open>Object.fromEntries(entries.map(([k, v]) => [v, k]))\<close>: a later entry with the same
      variable name would win.  Every key looked up starts with \<open>--\<close>, which no inherited
      property of an object does.\<close>
  "varToToken = map_of (rev (map (\<lambda>(k, v). (v, k)) TOKEN_TO_VAR))"

definition storeMatch :: "(token_key \<rightharpoonup> string) \<Rightarrow> string \<times> string \<Rightarrow> (token_key \<rightharpoonup> string)" where
  \<comment> \<open>the body of the loop, for the match with groups \<open>m\<close>\<close>
  "storeMatch result m =
     (case varToToken (''--'' @ fst m) of
        Some tokenKey \<Rightarrow> result(tokenKey \<mapsto> snd m)
      | None \<Rightarrow> result)"

definition parseCssToTokens :: "string \<Rightarrow> (token_key \<rightharpoonup> string)" where
  "parseCssToTokens css = foldl storeMatch Map.empty (execAll css)"

definition nameOk :: "string \<Rightarrow> bool" where
  \<comment> \<open>a non-empty run of \<open>[\w-]\<close>\<close>
  "nameOk name \<longleftrightarrow> name \<noteq> [] \<and> list_all isNameChar name"

definition tokenValueOk :: "string \<Rightarrow> bool" where
  \<comment> \<open>A value that the serialized form keeps apart from its surroundings: not empty, no
      \<open>;\<close>, no line terminator, no white space at its start or end.\<close>
  "tokenValueOk v \<longleftrightarrow>
     v \<noteq> [] \<and> \<not> list_ex (\<lambda>c. c = CHR '';'') v \<and> \<not> list_ex isLineTerminator v \<and>
     \<not> isWhiteSpace (hd v) \<and> \<not> isWhiteSpace (last v)"

definition entryOk :: "SlideTokens \<Rightarrow> (token_key \<Rightarrow> string) \<Rightarrow> token_key \<times> string \<Rightarrow> bool" where
  \<comment> \<open>The entry's variable is \<open>--\<close> and a name, and the token's value is \<open>body\<close>'s value
      followed by white space only.\<close>
  "entryOk tokens body entry \<longleftrightarrow>
     take 2 (snd entry) = ''--'' \<and> nameOk (drop 2 (snd entry)) \<and>
     tokenValueOk (body (fst entry)) \<and>
     (\<exists>trail. list_all isWhiteSpace trail \<and> tokens (fst entry) = body (fst entry) @ trail)"

section \<open>Properties of the path sanitizer\<close>

subsection \<open>Splitting, joining and the segment loop\<close>

lemma normalizeParts_append:
  "normalizeParts acc (pre @ post) =
     (case normalizeParts acc pre of None \<Rightarrow> None | Some acc' \<Rightarrow> normalizeParts acc' post)"
  by (induction pre arbitrary: acc) simp_all

lemma normalizeParts_retained:
  "normalizeParts acc segs = Some res \<Longrightarrow> \<forall>p\<in>set acc. retained p \<and> Q p \<Longrightarrow> \<forall>p\<in>set segs. Q p
    \<Longrightarrow> \<forall>p\<in>set res. retained p \<and> Q p"
proof (induction segs arbitrary: acc)
  case Nil
  then show ?case by simp
next
  case (Cons s segs)
  have Qs: "\<forall>p\<in>set segs. Q p" and Q1: "Q s" using Cons.prems(3) by simp_all
  show ?case
  proof (cases "s = [] \<or> s = ''.''")
    case True
    then have "normalizeParts acc segs = Some res" using Cons.prems(1) by auto
    from Cons.IH[OF this Cons.prems(2) Qs] show ?thesis .
  next
    case False
    show ?thesis
    proof (cases "s = ''..''")
      case True
      with Cons.prems(1) have r: "normalizeParts (butlast acc) segs = Some res"
        by (simp split: if_splits)
      have "\<forall>p\<in>set (butlast acc). retained p \<and> Q p"
        using Cons.prems(2) by (meson in_set_butlastD)
      from Cons.IH[OF r this Qs] show ?thesis .
    next
      case F2: False
      with False Cons.prems(1) have r: "normalizeParts (acc @ [s]) segs = Some res" by simp
      have "retained s" using False F2 by (simp add: retained_def)
      then have "\<forall>p\<in>set (acc @ [s]). retained p \<and> Q p"
        using Cons.prems(2) Q1 by simp
      from Cons.IH[OF r this Qs] show ?thesis .
    qed
  qed
qed

lemma normalizeParts_clean:
  "\<forall>p\<in>set segs. retained p \<Longrightarrow> normalizeParts acc segs = Some (acc @ segs)"
  by (induction segs arbitrary: acc) (simp_all add: retained_def)

lemma splitOn_append_sep:
  "sep \<notin> set p \<Longrightarrow> splitOn sep (p @ sep # s) = p # splitOn sep s"
  by (induction p) auto

lemma splitOn_no_sep_id: "sep \<notin> set p \<Longrightarrow> splitOn sep p = [p]"
  by (induction p) auto

lemma splitOn_joinWith:
  "parts \<noteq> [] \<Longrightarrow> \<forall>p\<in>set parts. sep \<notin> set p \<Longrightarrow> splitOn sep (joinWith [sep] parts) = parts"
proof (induction "[sep]" parts rule: joinWith.induct)
  case 1
  then show ?case by simp
next
  case (2 p)
  then show ?case by (simp add: splitOn_no_sep_id)
next
  case (3 p q ps)
  then show ?case by (simp add: splitOn_append_sep)
qed

lemma splitOn_nonempty: "splitOn sep s \<noteq> []"
  by (induction s) (simp_all split: list.splits)

lemma splitOn_subset: "p \<in> set (splitOn sep s) \<Longrightarrow> set p \<subseteq> set s"
proof (induction s arbitrary: p)
  case Nil
  then show ?case by simp
next
  case (Cons c cs)
  obtain q qs where q: "splitOn sep cs = q # qs"
    using splitOn_nonempty[of sep cs] by (cases "splitOn sep cs") auto
  have "set q \<subseteq> set cs" using Cons.IH[of q] q by simp
  moreover have "\<And>r. r \<in> set qs \<Longrightarrow> set r \<subseteq> set cs" using Cons.IH q by simp
  ultimately show ?case using Cons.prems q by (auto split: if_splits)
qed

lemma splitOn_no_sep: "p \<in> set (splitOn sep s) \<Longrightarrow> sep \<notin> set p"
proof (induction s arbitrary: p)
  case Nil
  then show ?case by simp
next
  case (Cons c cs)
  obtain q qs where q: "splitOn sep cs = q # qs"
    using splitOn_nonempty[of sep cs] by (cases "splitOn sep cs") auto
  have "sep \<notin> set q" using Cons.IH[of q] q by simp
  moreover have "\<And>r. r \<in> set qs \<Longrightarrow> sep \<notin> set r" using Cons.IH q by simp
  ultimately show ?case using Cons.prems q by (auto split: if_splits)
qed

lemma set_joinWith: "set (joinWith sep parts) \<subseteq> set sep \<union> (\<Union>p\<in>set parts. set p)"
  by (induction sep parts rule: joinWith.induct) auto

lemma joinWith_hd: "parts \<noteq> [] \<Longrightarrow> hd parts \<noteq> [] \<Longrightarrow>
   joinWith sep parts \<noteq> [] \<and> hd (joinWith sep parts) = hd (hd parts)"
  by (induction sep parts rule: joinWith.induct) auto

lemma replaceBackslashes_free: "CHR 0x5C \<notin> set (replaceBackslashes s)"
  by (induction s) (auto simp: replaceBackslashes_def)

lemma replaceBackslashes_id: "CHR 0x5C \<notin> set s \<Longrightarrow> replaceBackslashes s = s"
  by (induction s) (auto simp: replaceBackslashes_def)

lemma relativeCandidate_no_backslash:
  assumes "relativeCandidate raw = Some rel"
  shows "CHR 0x5C \<notin> set rel"
proof -
  define r where "r = replaceBackslashes (fst (splitAssetPathAndSuffix (trim raw)))"
  have "rel = r \<or> rel = drop 1 r"
    using assms unfolding relativeCandidate_def r_def Let_def by (auto split: if_splits)
  moreover have "CHR 0x5C \<notin> set r" unfolding r_def by (rule replaceBackslashes_free)
  ultimately show ?thesis by (auto dest: in_set_dropD)
qed

lemma sanitize_output_shape:
  assumes "normalizeProjectRelativeAsset p = Some q"
  shows "\<exists>parts. parts \<noteq> [] \<and> q = joinWith ''/'' parts \<and>
           (\<forall>x\<in>set parts. retained x \<and> CHR ''/'' \<notin> set x \<and> CHR 0x5C \<notin> set x)"
proof -
  from assms obtain rel parts where rel: "relativeCandidate p = Some rel"
    and parts: "normalizeParts [] (splitOn CHR ''/'' rel) = Some parts"
    and ne: "parts \<noteq> []" and q: "q = joinWith ''/'' parts"
    unfolding normalizeProjectRelativeAsset_def by (auto split: option.splits if_splits)
  have "\<forall>x\<in>set (splitOn CHR ''/'' rel). CHR ''/'' \<notin> set x \<and> CHR 0x5C \<notin> set x"
    using splitOn_no_sep splitOn_subset relativeCandidate_no_backslash[OF rel] by blast
  from normalizeParts_retained[OF parts _ this] ne q show ?thesis by auto
qed

lemma sanitize_fixed_point:
  assumes ne: "parts \<noteq> []" and q: "q = joinWith ''/'' parts"
    and cl: "\<forall>x\<in>set parts. retained x \<and> CHR ''/'' \<notin> set x \<and> CHR 0x5C \<notin> set x"
    and t: "trim q = q" and h: "\<not> startsWith q ''#''" and e: "\<not> isExternalAssetPath q"
    and s: "fst (splitAssetPathAndSuffix q) = q"
  shows "normalizeProjectRelativeAsset q = Some q"
proof -
  have hdne: "hd parts \<noteq> []" using ne cl by (cases parts) (auto simp: retained_def)
  from joinWith_hd[OF ne hdne, of "''/''"] q have qne: "q \<noteq> []" and hdq: "hd q = hd (hd parts)"
    by simp_all
  have "hd (hd parts) \<noteq> CHR ''/''" using ne cl hdne by (cases parts; cases "hd parts") auto
  then have noslash: "\<not> startsWith q ''/''" using hdq qne by (cases q) (auto simp: startsWith_def)
  have "CHR 0x5C \<notin> set q" using set_joinWith[of "''/''" parts] cl q by auto
  then have rb: "replaceBackslashes q = q" by (rule replaceBackslashes_id)
  have rc: "relativeCandidate q = Some q"
    unfolding relativeCandidate_def Let_def using t h e s qne rb noslash by simp
  have sp: "splitOn CHR ''/'' q = parts" using splitOn_joinWith[OF ne, of "CHR ''/''"] cl q by simp
  have "normalizeParts [] parts = Some parts" using normalizeParts_clean[of parts "[]"] cl by simp
  then show ?thesis unfolding normalizeProjectRelativeAsset_def using rc sp ne q by simp
qed

lemma sanitize_idempotent_when_stable:
  "normalizeProjectRelativeAsset p = Some q \<Longrightarrow> trim q = q \<Longrightarrow> \<not> startsWith q ''#'' \<Longrightarrow>
   \<not> isExternalAssetPath q \<Longrightarrow> fst (splitAssetPathAndSuffix q) = q \<Longrightarrow>
   normalizeProjectRelativeAsset q = Some q"
  using sanitize_output_shape sanitize_fixed_point by blast


lemma weight_butlast: "weight (butlast xs) \<le> weight xs"
  by (induction xs) (simp_all add: weight_def)

lemma weight_append: "weight (xs @ ys) = weight xs + weight ys"
  by (simp add: weight_def)

lemma normalizeParts_weight:
  "normalizeParts acc segs = Some res \<Longrightarrow> weight res \<le> weight acc + weight segs"
proof (induction segs arbitrary: acc)
  case Nil
  then show ?case by simp
next
  case (Cons s segs)
  have w: "weight (s # segs) = Suc (length s) + weight segs" by (simp add: weight_def)
  show ?case
  proof (cases "s = [] \<or> s = ''.''")
    case True
    then have "normalizeParts acc segs = Some res" using Cons.prems by auto
    from Cons.IH[OF this] w show ?thesis by simp
  next
    case False
    show ?thesis
    proof (cases "s = ''..''")
      case True
      with Cons.prems have "normalizeParts (butlast acc) segs = Some res"
        by (simp split: if_splits)
      from Cons.IH[OF this] weight_butlast[of acc] w show ?thesis by simp
    next
      case F2: False
      with False Cons.prems have "normalizeParts (acc @ [s]) segs = Some res" by simp
      from Cons.IH[OF this] w show ?thesis by (simp add: weight_append) (simp add: weight_def)
    qed
  qed
qed

lemma weight_splitOn: "weight (splitOn sep s) = Suc (length s)"
proof (induction s)
  case Nil
  then show ?case by (simp add: weight_def)
next
  case (Cons c cs)
  obtain q qs where q: "splitOn sep cs = q # qs"
    using splitOn_nonempty[of sep cs] by (cases "splitOn sep cs") auto
  with Cons show ?case by (simp add: weight_def)
qed

lemma length_joinWith: "parts \<noteq> [] \<Longrightarrow> Suc (length (joinWith [sep] parts)) = weight parts"
  by (induction "[sep]" parts rule: joinWith.induct) (simp_all add: weight_def)

lemma dropWhile_same_length: "length (dropWhile P xs) = length xs \<Longrightarrow> dropWhile P xs = xs"
proof (cases xs)
  case Nil
  then show ?thesis by simp
next
  case (Cons x xs')
  assume l: "length (dropWhile P xs) = length xs"
  show ?thesis
  proof (cases "P x")
    case True
    then have "length (dropWhile P xs) \<le> length xs'" using Cons by (simp add: length_dropWhile_le)
    with l Cons show ?thesis by simp
  next
    case False
    with Cons show ?thesis by simp
  qed
qed

lemma length_trim: "length (trim s) \<le> length s"
  unfolding trim_def
  by (metis length_dropWhile_le length_rev order_trans)

lemma trim_same_length: assumes "length (trim s) = length s" shows "trim s = s"
proof -
  let ?d = "dropWhile isWhiteSpace s"
  have a: "length (dropWhile isWhiteSpace (rev ?d)) \<le> length ?d"
    by (metis length_dropWhile_le length_rev)
  have b: "length ?d \<le> length s" by (rule length_dropWhile_le)
  from assms have "length (dropWhile isWhiteSpace (rev ?d)) = length s" by (simp add: trim_def)
  with a b have c: "length ?d = length s" and d: "length (dropWhile isWhiteSpace (rev ?d)) = length (rev ?d)"
    by simp_all
  from dropWhile_same_length[OF c] have e: "?d = s" .
  from dropWhile_same_length[OF d] have "dropWhile isWhiteSpace (rev ?d) = rev ?d" .
  with e show ?thesis by (simp add: trim_def)
qed

lemma length_pathOnly: "length (fst (splitAssetPathAndSuffix s)) \<le> length s"
  by (simp add: splitAssetPathAndSuffix_def Let_def length_takeWhile_le)

lemma pathOnly_same_length:
  "length (fst (splitAssetPathAndSuffix s)) = length s \<Longrightarrow> fst (splitAssetPathAndSuffix s) = s"
proof -
  assume l: "length (fst (splitAssetPathAndSuffix s)) = length s"
  show ?thesis
  proof (cases "list_ex isLineTerminator (dropWhile notQueryOrFragment s)")
    case True
    then show ?thesis by (simp add: splitAssetPathAndSuffix_def)
  next
    case False
    then have f: "fst (splitAssetPathAndSuffix s) = takeWhile notQueryOrFragment s"
      by (simp add: splitAssetPathAndSuffix_def)
    have "length (takeWhile notQueryOrFragment s) + length (dropWhile notQueryOrFragment s) = length s"
      by (metis length_append takeWhile_dropWhile_id)
    with l f have "dropWhile notQueryOrFragment s = []" by simp
    then have "takeWhile notQueryOrFragment s = s"
      by (metis append_Nil2 takeWhile_dropWhile_id)
    with f show ?thesis by simp
  qed
qed

lemma relativeCandidate_length:
  assumes "relativeCandidate raw = Some rel"
  shows "length rel \<le> length (fst (splitAssetPathAndSuffix (trim raw)))"
proof -
  define r where "r = replaceBackslashes (fst (splitAssetPathAndSuffix (trim raw)))"
  have "rel = r \<or> rel = drop 1 r"
    using assms unfolding relativeCandidate_def r_def Let_def by (auto split: if_splits)
  moreover have "length r = length (fst (splitAssetPathAndSuffix (trim raw)))"
    by (simp add: r_def replaceBackslashes_def)
  ultimately show ?thesis by auto
qed

lemma sanitize_length:
  assumes "normalizeProjectRelativeAsset x = Some y"
  shows "length y \<le> length (fst (splitAssetPathAndSuffix (trim x)))"
proof -
  from assms obtain rel parts where rel: "relativeCandidate x = Some rel"
    and parts: "normalizeParts [] (splitOn CHR ''/'' rel) = Some parts"
    and ne: "parts \<noteq> []" and y: "y = joinWith ''/'' parts"
    unfolding normalizeProjectRelativeAsset_def by (auto split: option.splits if_splits)
  from normalizeParts_weight[OF parts] have "weight parts \<le> Suc (length rel)"
    unfolding weight_splitOn by (simp add: weight_def)
  with length_joinWith[OF ne, of "CHR ''/''"] y have "length y \<le> length rel" by simp
  with relativeCandidate_length[OF rel] show ?thesis by simp
qed

lemma sanitize_fixed_point_only_if:
  assumes "normalizeProjectRelativeAsset q = Some q"
  shows "trim q = q \<and> \<not> startsWith q ''#'' \<and> \<not> isExternalAssetPath q \<and>
         fst (splitAssetPathAndSuffix q) = q"
proof -
  from sanitize_length[OF assms] length_pathOnly[of "trim q"] length_trim[of q]
  have l1: "length (trim q) = length q"
    and l2: "length (fst (splitAssetPathAndSuffix (trim q))) = length (trim q)" by simp_all
  from trim_same_length[OF l1] have t: "trim q = q" .
  from pathOnly_same_length[OF l2] t have s: "fst (splitAssetPathAndSuffix q) = q" by simp
  from assms have "relativeCandidate q \<noteq> None"
    unfolding normalizeProjectRelativeAsset_def by (auto split: option.splits)
  then have "\<not> startsWith q ''#'' \<and> \<not> isExternalAssetPath q"
    unfolding relativeCandidate_def Let_def t by (auto split: if_splits)
  with t s show ?thesis by simp
qed


subsection \<open>Rejected inputs\<close>

lemma dropWhile_all: "\<forall>c\<in>set ws. P c \<Longrightarrow> dropWhile P (ws @ xs) = dropWhile P xs"
  by (induction ws) simp_all

lemma trim_keeps_prefix:
  assumes ws: "\<forall>c\<in>set ws. isWhiteSpace c" and ne: "p \<noteq> []"
    and h: "\<not> isWhiteSpace (hd p)" and l: "\<not> isWhiteSpace (last p)"
  shows "\<exists>t. trim (ws @ p @ rest) = p @ t"
proof -
  have d: "dropWhile isWhiteSpace (ws @ p @ rest) = p @ rest"
    using dropWhile_all[OF ws] ne h by (cases p) simp_all
  have r: "dropWhile isWhiteSpace (rev p) = rev p"
    using ne l by (cases "rev p") (auto simp: last_rev[symmetric] simp del: last_rev)
  have "dropWhile isWhiteSpace (rev rest @ rev p) =
      (if \<forall>c\<in>set (rev rest). isWhiteSpace c then rev p else dropWhile isWhiteSpace (rev rest) @ rev p)"
    using r by (simp add: dropWhile_append)
  then have "\<exists>u. dropWhile isWhiteSpace (rev rest @ rev p) = u @ rev p"
    by (metis append_Nil)
  then obtain u where "dropWhile isWhiteSpace (rev (p @ rest)) = u @ rev p" by auto
  then have "trim (ws @ p @ rest) = p @ rev u" by (simp add: trim_def d)
  then show ?thesis by blast
qed

lemma trim_all_white:
  assumes "\<forall>c\<in>set raw. isWhiteSpace c"
  shows "trim raw = []"
proof -
  from assms have d: "dropWhile isWhiteSpace raw = []" by simp
  show ?thesis unfolding trim_def d by simp
qed

lemma relativeCandidate_None_sanitize: "relativeCandidate raw = None \<Longrightarrow> normalizeProjectRelativeAsset raw = None"
  by (simp add: normalizeProjectRelativeAsset_def)

lemma white_rejected: "\<forall>c\<in>set raw. isWhiteSpace c \<Longrightarrow> normalizeProjectRelativeAsset raw = None"
  by (rule relativeCandidate_None_sanitize) (simp add: relativeCandidate_def trim_all_white)

lemma fragment_rejected:
  assumes "\<forall>c\<in>set ws. isWhiteSpace c"
  shows "normalizeProjectRelativeAsset (ws @ CHR ''#'' # rest) = None"
proof -
  from trim_keeps_prefix[OF assms, of "''#''" rest] obtain t where "trim (ws @ ''#'' @ rest) = ''#'' @ t"
    by (auto simp: isWhiteSpace_def)
  then show ?thesis
    by (intro relativeCandidate_None_sanitize) (simp add: relativeCandidate_def startsWith_def)
qed

lemma toLowerCase_append: "toLowerCase (a @ b) = toLowerCase a @ toLowerCase b"
  by (simp add: toLowerCase_def)

lemma external_rejected_gen:
  assumes ws: "\<forall>c\<in>set ws. isWhiteSpace c"
    and p: "p \<in> set [''//'', ''http://'', ''https://'', ''data:'', ''blob:'', ''mailto:'', ''tel:'']"
  shows "normalizeProjectRelativeAsset (ws @ p @ rest) = None"
proof -
  have "p \<noteq> [] \<and> \<not> isWhiteSpace (hd p) \<and> \<not> isWhiteSpace (last p)"
    using p by (auto simp: isWhiteSpace_def)
  with trim_keeps_prefix[OF ws, of p rest] obtain t where t: "trim (ws @ p @ rest) = p @ t" by blast
  have "isExternalAssetPath (p @ t)"
    using p by (auto simp: isExternalAssetPath_def startsWith_def toLowerCase_def toLowerChar_def)
  with t show ?thesis
    by (intro relativeCandidate_None_sanitize) (simp add: relativeCandidate_def)
qed

lemma resolve_passthrough:
  "normalizeProjectRelativeAsset raw = None \<Longrightarrow>
   resolveProjectAssetSource t b pp raw s = (Inr raw, s)"
  by (simp add: resolveProjectAssetSource_def)












subsection \<open>Claims about the path sanitizer\<close>

text \<open>
  Claim C1.  Whenever the segment loop of \<open>normalizeProjectRelativeAsset\<close> meets a \<open>..\<close>
  segment while \<open>normalizedParts\<close> is empty, the whole input is rejected: if the segments
  before that \<open>..\<close> leave nothing retained, the result is \<open>null\<close>.  In particular
  \<open>../../etc/passwd\<close> and \<open>images/../../secret\<close> are rejected.
\<close>

theorem traversal_rejected:
  "(\<forall>raw relative pre post.
      relativeCandidate raw = Some relative \<and>
      splitOn CHR ''/'' relative = pre @ ''..'' # post \<and>
      normalizeParts [] pre = Some []
      \<longrightarrow> normalizeProjectRelativeAsset raw = None) \<and>
   normalizeProjectRelativeAsset ''../../etc/passwd'' = None \<and>
   normalizeProjectRelativeAsset ''images/../../secret'' = None"
proof (intro conjI allI impI)
  fix raw relative pre post
  assume a: "relativeCandidate raw = Some relative \<and>
      splitOn CHR ''/'' relative = pre @ ''..'' # post \<and> normalizeParts [] pre = Some []"
  then have "normalizeParts [] (splitOn CHR ''/'' relative) = None"
    by (simp add: normalizeParts_append)
  with a show "normalizeProjectRelativeAsset raw = None"
    by (simp add: normalizeProjectRelativeAsset_def)
next
  show "normalizeProjectRelativeAsset ''../../etc/passwd'' = None" by code_simp
next
  show "normalizeProjectRelativeAsset ''images/../../secret'' = None" by code_simp
qed

theorem traversal_rejected_witness:
  "relativeCandidate ''a/./../../b'' = Some ''a/./../../b'' \<and>
   splitOn CHR ''/'' ''a/./../../b'' = [''a'', ''.'', ''..''] @ ''..'' # [''b''] \<and>
   normalizeParts [] [''a'', ''.'', ''..''] = Some [] \<and>
   normalizeProjectRelativeAsset ''a/./../../b'' = None"
proof -
  have h1: "relativeCandidate ''a/./../../b'' = Some ''a/./../../b''" by code_simp
  have h2: "splitOn CHR ''/'' ''a/./../../b'' = [''a'', ''.'', ''..''] @ ''..'' # [''b'']" by code_simp
  have h3: "normalizeParts [] [''a'', ''.'', ''..''] = Some []" by code_simp
  from traversal_rejected h1 h2 h3 show ?thesis by blast
qed

text \<open>
  Claim C2.  The sanitizer returns \<open>null\<close> for every empty or white-space-only input, for
  every input whose first character after leading white space is \<open>#\<close>, and for every
  input that starts, after leading white space, with \<open>//\<close>, \<open>http://\<close>, \<open>https://\<close>,
  \<open>data:\<close>, \<open>blob:\<close>, \<open>mailto:\<close> or \<open>tel:\<close>.  For every input that the sanitizer
  rejects, \<open>resolveProjectAssetSource\<close> resolves to the input itself and touches neither the
  cache nor the backend; so it does for \<open>https://example.com/a.png\<close>.
\<close>

theorem external_rejected_and_passed_through:
  "(\<forall>raw. (\<forall>c\<in>set raw. isWhiteSpace c) \<longrightarrow> normalizeProjectRelativeAsset raw = None) \<and>
   (\<forall>ws rest. (\<forall>c\<in>set ws. isWhiteSpace c) \<longrightarrow>
      normalizeProjectRelativeAsset (ws @ CHR ''#'' # rest) = None) \<and>
   (\<forall>ws p rest. (\<forall>c\<in>set ws. isWhiteSpace c) \<and>
      p \<in> set [''//'', ''http://'', ''https://'', ''data:'', ''blob:'', ''mailto:'', ''tel:''] \<longrightarrow>
      normalizeProjectRelativeAsset (ws @ p @ rest) = None) \<and>
   (\<forall>raw isTauriRuntime invoke projectPath s.
      normalizeProjectRelativeAsset raw = None \<longrightarrow>
      resolveProjectAssetSource isTauriRuntime invoke projectPath raw s = (Inr raw, s)) \<and>
   normalizeProjectRelativeAsset ''https://example.com/a.png'' = None \<and>
   (\<forall>isTauriRuntime invoke projectPath s.
      resolveProjectAssetSource isTauriRuntime invoke projectPath ''https://example.com/a.png'' s =
        (Inr ''https://example.com/a.png'', s))"
proof -
  have ex: "normalizeProjectRelativeAsset ''https://example.com/a.png'' = None" by code_simp
  show ?thesis
    using white_rejected fragment_rejected external_rejected_gen resolve_passthrough ex
    by (intro conjI allI impI) blast+
qed

theorem external_rejected_and_passed_through_witness:
  "list_all isWhiteSpace ''   '' \<and>
   normalizeProjectRelativeAsset ''   '' = None \<and>
   normalizeProjectRelativeAsset (''   '' @ CHR ''#'' # ''top'') = None \<and>
   ''mailto:'' \<in> set [''//'', ''http://'', ''https://'', ''data:'', ''blob:'', ''mailto:'', ''tel:''] \<and>
   normalizeProjectRelativeAsset (''   '' @ ''mailto:'' @ ''team@example.com'') = None \<and>
   resolveProjectAssetSource True backendDataUrl ''/decks/demo''
       (''   '' @ ''mailto:'' @ ''team@example.com'') initialResolverState =
     (Inr (''   '' @ ''mailto:'' @ ''team@example.com''), initialResolverState)"
proof -
  have w: "\<forall>c\<in>set ''   ''. isWhiteSpace c" by (simp add: isWhiteSpace_def)
  have m: "''mailto:'' \<in> set [''//'', ''http://'', ''https://'', ''data:'', ''blob:'', ''mailto:'', ''tel:'']"
    by simp
  note T = external_rejected_and_passed_through
  have a: "normalizeProjectRelativeAsset ''   '' = None"
    using T w by blast
  have b: "normalizeProjectRelativeAsset (''   '' @ CHR ''#'' # ''top'') = None"
    using T w by blast
  have c: "normalizeProjectRelativeAsset (''   '' @ ''mailto:'' @ ''team@example.com'') = None"
    using T w m by blast
  have d: "resolveProjectAssetSource True backendDataUrl ''/decks/demo''
       (''   '' @ ''mailto:'' @ ''team@example.com'') initialResolverState =
     (Inr (''   '' @ ''mailto:'' @ ''team@example.com''), initialResolverState)"
    using T c by blast
  have w': "list_all isWhiteSpace ''   ''" using w by (simp add: list_all_iff)
  from w' m a b c d show ?thesis by blast
qed



text \<open>
  Claim C4 as stated (for every accepted input \<open>p\<close>, sanitizing the result again gives
  the same result) fails: a space before the fragment stays in the result of the first
  pass and is trimmed by the second.
\<close>

theorem sanitize_not_idempotent:
  "normalizeProjectRelativeAsset ''images/logo.png #hero'' = Some ''images/logo.png '' \<and>
   normalizeProjectRelativeAsset ''images/logo.png '' = Some ''images/logo.png'' \<and>
   normalizeProjectRelativeAsset ''images/logo.png '' \<noteq>
     normalizeProjectRelativeAsset ''images/logo.png #hero''"
proof -
  have a: "normalizeProjectRelativeAsset ''images/logo.png #hero'' = Some ''images/logo.png ''"
    by code_simp
  have b: "normalizeProjectRelativeAsset ''images/logo.png '' = Some ''images/logo.png''"
    by code_simp
  show ?thesis unfolding a b by simp
qed

text \<open>
  Claim C4, amended.  For every input \<open>p\<close> that the sanitizer accepts with result \<open>q\<close>,
  sanitizing \<open>q\<close> gives \<open>q\<close> again exactly when \<open>q\<close> has no leading or trailing white space,
  does not start with \<open>#\<close> or with an external prefix, and has no query or fragment suffix
  that \<open>splitAssetPathAndSuffix\<close> would strip.
\<close>

theorem sanitize_idempotent_iff:
  assumes "normalizeProjectRelativeAsset p = Some q"
  shows "normalizeProjectRelativeAsset q = Some q \<longleftrightarrow>
         trim q = q \<and> \<not> startsWith q ''#'' \<and> \<not> isExternalAssetPath q \<and>
         fst (splitAssetPathAndSuffix q) = q"
  using sanitize_fixed_point_only_if sanitize_idempotent_when_stable[OF assms] by blast

theorem sanitize_idempotent_iff_witness:
  "normalizeProjectRelativeAsset ''/images/./icons/../logo.png?v=2'' = Some ''images/logo.png'' \<and>
   trim ''images/logo.png'' = ''images/logo.png'' \<and>
   \<not> startsWith ''images/logo.png'' ''#'' \<and>
   \<not> isExternalAssetPath ''images/logo.png'' \<and>
   fst (splitAssetPathAndSuffix ''images/logo.png'') = ''images/logo.png'' \<and>
   normalizeProjectRelativeAsset ''images/logo.png'' = Some ''images/logo.png''"
proof -
  have h: "normalizeProjectRelativeAsset ''/images/./icons/../logo.png?v=2'' = Some ''images/logo.png''"
    by code_simp
  have c1: "trim ''images/logo.png'' = ''images/logo.png''" by code_simp
  have c2: "\<not> startsWith ''images/logo.png'' ''#''" by code_simp
  have c3: "\<not> isExternalAssetPath ''images/logo.png''" by code_simp
  have c4: "fst (splitAssetPathAndSuffix ''images/logo.png'') = ''images/logo.png''" by code_simp
  from sanitize_idempotent_iff[OF h] c1 c2 c3 c4
  have "normalizeProjectRelativeAsset ''images/logo.png'' = Some ''images/logo.png''" by blast
  with h c1 c2 c3 c4 show ?thesis by blast
qed

section \<open>Properties of the asset resolver\<close>

lemma sanitize_nonempty:
  assumes "normalizeProjectRelativeAsset raw = Some q"
  shows "q \<noteq> []"
proof -
  from sanitize_output_shape[OF assms] obtain parts where ne: "parts \<noteq> []"
    and q: "q = joinWith ''/'' parts" and cl: "\<forall>x\<in>set parts. retained x" by blast
  have "hd parts \<noteq> []" using ne cl by (cases parts) (auto simp: retained_def)
  from joinWith_hd[OF ne this] q show ?thesis by simp
qed

lemma resolve_hit:
  assumes "normalizeProjectRelativeAsset rawSrc = Some relativePath"
    and "projectPath \<noteq> []"
    and "projectAssetDataUrlCache s (assetCacheKey projectPath relativePath) = Some payload"
    and "payload \<noteq> []"
  shows "resolveProjectAssetSource True invoke projectPath rawSrc s = (Inr payload, s)"
  using assms sanitize_nonempty[OF assms(1)]
  by (simp add: resolveProjectAssetSource_def Let_def)

lemma resolve_keeps_entry:
  assumes "projectAssetDataUrlCache s k = Some v" and "v \<noteq> []"
  shows "projectAssetDataUrlCache (snd (resolveProjectAssetSource t invoke projectPath rawSrc s)) k = Some v"
proof (cases "normalizeProjectRelativeAsset rawSrc")
  case None
  then show ?thesis using assms by (simp add: resolveProjectAssetSource_def)
next
  case (Some rel)
  show ?thesis
  proof (cases "assetCacheKey projectPath rel = k")
    case True
    then show ?thesis using assms Some
      by (simp add: resolveProjectAssetSource_def Let_def)
  next
    case False
    then show ?thesis using assms Some
      by (auto simp: resolveProjectAssetSource_def Let_def call_def loadAndCache_def
               split: option.splits sum.splits prod.splits)
  qed
qed

lemma resolveMany_keeps_entry:
  "projectAssetDataUrlCache s k = Some v \<Longrightarrow> v \<noteq> [] \<Longrightarrow>
   projectAssetDataUrlCache (resolveMany t calls s) k = Some v"
proof (induction calls arbitrary: s)
  case Nil
  then show ?case by simp
next
  case (Cons c calls)
  obtain invoke pp raw where c: "c = (invoke, pp, raw)" by (cases c) auto
  show ?case unfolding c resolveMany.simps
    by (rule Cons.IH) (rule resolve_keeps_entry[OF Cons.prems], rule Cons.prems(2))
qed

lemma loadAndCache_True:
  "loadAndCache True invoke projectPath rawSrc cacheKey s =
     (case invoke (backendReads s) projectPath rawSrc of
        Inl cause \<Rightarrow> (Inl cause, s\<lparr>backendReads := Suc (backendReads s)\<rparr>)
      | Inr nextSource \<Rightarrow>
          (Inr nextSource,
           s\<lparr>backendReads := Suc (backendReads s),
             projectAssetDataUrlCache := (projectAssetDataUrlCache s)(cacheKey \<mapsto> nextSource)\<rparr>))"
  by (cases "invoke (backendReads s) projectPath rawSrc") (simp_all add: loadAndCache_def call_def)

lemma resolve_unfold:
  assumes "normalizeProjectRelativeAsset rawSrc = Some relativePath" and "projectPath \<noteq> []"
  shows "resolveProjectAssetSource True invoke projectPath rawSrc s =
     (case projectAssetDataUrlCache s (assetCacheKey projectPath relativePath) of
        None \<Rightarrow> loadAndCache True invoke projectPath rawSrc (assetCacheKey projectPath relativePath) s
      | Some cached \<Rightarrow>
          if cached \<noteq> [] then (Inr cached, s)
          else loadAndCache True invoke projectPath rawSrc (assetCacheKey projectPath relativePath) s)"
  using assms sanitize_nonempty[OF assms(1)]
  by (simp add: resolveProjectAssetSource_def Let_def)

lemma resolve_first_stores:
  assumes san: "normalizeProjectRelativeAsset rawSrc = Some relativePath"
    and pp: "projectPath \<noteq> []"
    and first: "resolveProjectAssetSource True invoke1 projectPath rawSrc s = (Inr payload, s1)"
    and ne: "payload \<noteq> []"
  shows "projectAssetDataUrlCache s1 (assetCacheKey projectPath relativePath) = Some payload"
proof -
  let ?k = "assetCacheKey projectPath relativePath"
  have miss: "loadAndCache True invoke1 projectPath rawSrc ?k s = (Inr payload, s1) \<Longrightarrow>
      projectAssetDataUrlCache s1 ?k = Some payload"
    by (cases "invoke1 (backendReads s) projectPath rawSrc") (auto simp: loadAndCache_True)
  show ?thesis
  proof (cases "projectAssetDataUrlCache s ?k")
    case None
    with first show ?thesis unfolding resolve_unfold[OF san pp] by (simp add: miss)
  next
    case (Some cached)
    show ?thesis
    proof (cases "cached = []")
      case True
      with Some first show ?thesis unfolding resolve_unfold[OF san pp] by (simp add: miss)
    next
      case False
      with Some first show ?thesis unfolding resolve_unfold[OF san pp] by simp
    qed
  qed
qed

lemma resolve_fallback:
  "normalizeProjectRelativeAsset raw = None \<or> projectPath = [] \<or> \<not> isTauriRuntime \<Longrightarrow>
   resolveProjectAssetSource isTauriRuntime invoke projectPath raw s = (Inr raw, s)"
proof (cases "normalizeProjectRelativeAsset raw")
  case None
  then show ?thesis by (simp add: resolveProjectAssetSource_def)
next
  case (Some rel)
  assume "normalizeProjectRelativeAsset raw = None \<or> projectPath = [] \<or> \<not> isTauriRuntime"
  with Some have "projectPath = [] \<or> \<not> isTauriRuntime" by simp
  with Some show ?thesis by (simp add: resolveProjectAssetSource_def)
qed

lemma callers_catch:
  assumes "fst (resolveProjectAssetSource isTauriRuntime invoke projectPath raw s) = Inl cause"
  shows "fst (ProjectAssetImage_resolvedSrc isTauriRuntime invoke projectPath (Some raw) cleanedUp s) = raw \<and>
         fst (handleOpenAsset_src isTauriRuntime invoke projectPath raw s) = raw"
  using assms
proof -
  obtain r s' where rs: "resolveProjectAssetSource isTauriRuntime invoke projectPath raw s = (r, s')"
    by (cases "resolveProjectAssetSource isTauriRuntime invoke projectPath raw s") auto
  with assms have r: "r = Inl cause" by simp
  have a: "fst (ProjectAssetImage_resolvedSrc isTauriRuntime invoke projectPath (Some raw) cleanedUp s) = raw"
    by (simp add: ProjectAssetImage_resolvedSrc_def rs r)
  have b: "fst (handleOpenAsset_src isTauriRuntime invoke projectPath raw s) = raw"
    by (simp add: handleOpenAsset_src_def rs r)
  from a b show ?thesis by (rule conjI)
qed

lemma resolve_rejects:
  assumes "normalizeProjectRelativeAsset raw = Some relativePath" and "projectPath \<noteq> []"
    and "projectAssetDataUrlCache s (assetCacheKey projectPath relativePath) = None"
    and "invoke (backendReads s) projectPath raw = Inl cause"
  shows "fst (resolveProjectAssetSource True invoke projectPath raw s) = Inl cause"
proof -
  have "resolveProjectAssetSource True invoke projectPath raw s =
      loadAndCache True invoke projectPath raw (assetCacheKey projectPath relativePath) s"
    unfolding resolve_unfold[OF assms(1,2)] using assms(3) by simp
  then show ?thesis using assms(4) by (simp add: loadAndCache_True)
qed

subsection \<open>Claims about the asset resolver\<close>

text \<open>
  Claim C5 as stated (after a first resolve call has succeeded and stored its payload, no
  later call for the same pair reads the backend again) fails when the stored payload is
  the empty string: \<open>if (cached)\<close> takes the empty string for a miss, and the second call
  reads the backend a second time.
\<close>

theorem cache_miss_on_empty_payload:
  "normalizeProjectRelativeAsset ''images/a.png'' = Some ''images/a.png'' \<and>
   fst (resolveProjectAssetSource True backendEmptyPayload ''/decks/demo'' ''images/a.png''
          initialResolverState) = Inr [] \<and>
   projectAssetDataUrlCache
     (snd (resolveProjectAssetSource True backendEmptyPayload ''/decks/demo'' ''images/a.png''
          initialResolverState)) (assetCacheKey ''/decks/demo'' ''images/a.png'') = Some [] \<and>
   backendReads
     (snd (resolveProjectAssetSource True backendEmptyPayload ''/decks/demo'' ''images/a.png''
          initialResolverState)) = 1 \<and>
   backendReads
     (snd (resolveProjectAssetSource True backendEmptyPayload ''/decks/demo'' ''images/a.png''
       (snd (resolveProjectAssetSource True backendEmptyPayload ''/decks/demo'' ''images/a.png''
          initialResolverState)))) = 2"
  by (intro conjI; code_simp)

text \<open>
  Claim C5, amended.  For every project path and raw reference that sanitizes to a relative
  path, once a resolve call has succeeded with a non-empty payload, the payload is stored
  under the key \<open>projectPath + "::" + relativePath\<close>, and after any further resolve calls
  every resolve call for the same pair returns that payload and leaves the state, and so
  the number of backend reads, as it is, whatever the backend would answer now.
\<close>

theorem cache_reuse:
  assumes san: "normalizeProjectRelativeAsset rawSrc = Some relativePath"
    and pp: "projectPath \<noteq> []"
    and first: "resolveProjectAssetSource True invoke1 projectPath rawSrc s = (Inr payload, s1)"
    and ne: "payload \<noteq> []"
  shows "projectAssetDataUrlCache s1 (assetCacheKey projectPath relativePath) = Some payload \<and>
         resolveProjectAssetSource True invoke2 projectPath rawSrc (resolveMany True calls s1) =
           (Inr payload, resolveMany True calls s1) \<and>
         backendReads (snd (resolveProjectAssetSource True invoke2 projectPath rawSrc
             (resolveMany True calls s1))) = backendReads (resolveMany True calls s1)"
proof -
  have st: "projectAssetDataUrlCache s1 (assetCacheKey projectPath relativePath) = Some payload"
    by (rule resolve_first_stores[OF san pp first ne])
  have "projectAssetDataUrlCache (resolveMany True calls s1) (assetCacheKey projectPath relativePath) = Some payload"
    by (rule resolveMany_keeps_entry[OF st ne])
  from resolve_hit[OF san pp this ne] st show ?thesis by simp
qed

theorem cache_reuse_witness:
  "normalizeProjectRelativeAsset ''./images/a.png'' = Some ''images/a.png'' \<and>
   fst (resolveProjectAssetSource True backendDataUrl ''/decks/demo'' ''./images/a.png''
          initialResolverState) = Inr ''data:image/png;base64,AAAA'' \<and>
   resolveProjectAssetSource True backendMissingFile ''/decks/demo'' ''./images/a.png''
     (resolveMany True [(backendDataUrl, ''/decks/demo'', ''media/b.mp4'')]
       (snd (resolveProjectAssetSource True backendDataUrl ''/decks/demo'' ''./images/a.png''
          initialResolverState))) =
     (Inr ''data:image/png;base64,AAAA'',
      resolveMany True [(backendDataUrl, ''/decks/demo'', ''media/b.mp4'')]
       (snd (resolveProjectAssetSource True backendDataUrl ''/decks/demo'' ''./images/a.png''
          initialResolverState)))"
proof -
  have san: "normalizeProjectRelativeAsset ''./images/a.png'' = Some ''images/a.png''" by code_simp
  have pp: "''/decks/demo'' \<noteq> []" by simp
  have f: "fst (resolveProjectAssetSource True backendDataUrl ''/decks/demo'' ''./images/a.png''
          initialResolverState) = Inr ''data:image/png;base64,AAAA''" by code_simp
  then have first: "resolveProjectAssetSource True backendDataUrl ''/decks/demo'' ''./images/a.png''
      initialResolverState =
     (Inr ''data:image/png;base64,AAAA'',
      snd (resolveProjectAssetSource True backendDataUrl ''/decks/demo'' ''./images/a.png''
          initialResolverState))"
    by (metis prod.collapse)
  have ne: "''data:image/png;base64,AAAA'' \<noteq> []" by simp
  from cache_reuse[OF san pp first ne, of backendMissingFile
      "[(backendDataUrl, ''/decks/demo'', ''media/b.mp4'')]"] san f
  show ?thesis by blast
qed

text \<open>
  Claim C6 as stated (on a failed file load \<open>resolve\<close> resolves to the raw string) fails
  for \<open>resolveProjectAssetSource\<close>: the awaited backend call is not guarded, and the promise
  is rejected with the backend's error.
\<close>

theorem resolve_rejects_on_failed_load:
  "fst (resolveProjectAssetSource True backendMissingFile ''/decks/demo'' ''images/a.png''
          initialResolverState) = Inl (LoadError ''file not found'') \<and>
   fst (resolveProjectAssetSource True backendMissingFile ''/decks/demo'' ''images/a.png''
          initialResolverState) \<noteq> Inr ''images/a.png''"
  by (intro conjI; code_simp)

text \<open>
  Claim C6, amended.  \<open>resolveProjectAssetSource\<close> resolves to the raw string, with cache
  and backend untouched, whenever the sanitizer returns \<open>null\<close>, the project path is empty or
  the Tauri runtime is absent.  On a failed backend read after a cache miss its promise is
  rejected with the backend's error; both of its callers catch the rejection and fall back
  to the raw string: the \<open>resolvedSrc\<close> of \<open>ProjectAssetImage\<close> and the \<open>src\<close> that
  \<open>handleOpenAsset\<close> hands to the lightbox are the raw string.
\<close>

theorem resolution_failure_contained:
  "(\<forall>isTauriRuntime invoke projectPath raw s.
      normalizeProjectRelativeAsset raw = None \<or> projectPath = [] \<or> \<not> isTauriRuntime \<longrightarrow>
      resolveProjectAssetSource isTauriRuntime invoke projectPath raw s = (Inr raw, s)) \<and>
   (\<forall>invoke projectPath raw relativePath s cause.
      normalizeProjectRelativeAsset raw = Some relativePath \<and> projectPath \<noteq> [] \<and>
      projectAssetDataUrlCache s (assetCacheKey projectPath relativePath) = None \<and>
      invoke (backendReads s) projectPath raw = Inl cause \<longrightarrow>
      fst (resolveProjectAssetSource True invoke projectPath raw s) = Inl cause) \<and>
   (\<forall>isTauriRuntime invoke projectPath raw s cause cleanedUp.
      fst (resolveProjectAssetSource isTauriRuntime invoke projectPath raw s) = Inl cause \<longrightarrow>
      fst (ProjectAssetImage_resolvedSrc isTauriRuntime invoke projectPath (Some raw) cleanedUp s) = raw \<and>
      fst (handleOpenAsset_src isTauriRuntime invoke projectPath raw s) = raw)"
proof (intro conjI allI impI)
  fix isTauriRuntime :: bool and invoke :: backend and projectPath raw :: string
    and s :: resolver_state
  assume "normalizeProjectRelativeAsset raw = None \<or> projectPath = [] \<or> \<not> isTauriRuntime"
  then show "resolveProjectAssetSource isTauriRuntime invoke projectPath raw s = (Inr raw, s)"
    by (rule resolve_fallback)
next
  fix invoke :: backend and projectPath raw relativePath :: string
    and s :: resolver_state and cause :: load_error
  assume a: "normalizeProjectRelativeAsset raw = Some relativePath \<and> projectPath \<noteq> [] \<and>
      projectAssetDataUrlCache s (assetCacheKey projectPath relativePath) = None \<and>
      invoke (backendReads s) projectPath raw = Inl cause"
  show "fst (resolveProjectAssetSource True invoke projectPath raw s) = Inl cause"
    by (rule resolve_rejects[of raw relativePath]) (simp_all add: a)
next
  fix isTauriRuntime cleanedUp :: bool and invoke :: backend and projectPath raw :: string
    and s :: resolver_state and cause :: load_error
  assume a: "fst (resolveProjectAssetSource isTauriRuntime invoke projectPath raw s) = Inl cause"
  from callers_catch[OF a]
  show "fst (ProjectAssetImage_resolvedSrc isTauriRuntime invoke projectPath (Some raw) cleanedUp s) = raw"
    by (rule conjunct1)
  from callers_catch[OF a]
  show "fst (handleOpenAsset_src isTauriRuntime invoke projectPath raw s) = raw"
    by (rule conjunct2)
qed

theorem resolution_failure_contained_witness:
  "normalizeProjectRelativeAsset ''images/a.png'' = Some ''images/a.png'' \<and>
   projectAssetDataUrlCache initialResolverState (assetCacheKey ''/decks/demo'' ''images/a.png'') = None \<and>
   backendMissingFile (backendReads initialResolverState) ''/decks/demo'' ''images/a.png'' =
     Inl (LoadError ''file not found'') \<and>
   fst (resolveProjectAssetSource True backendMissingFile ''/decks/demo'' ''images/a.png''
          initialResolverState) = Inl (LoadError ''file not found'') \<and>
   fst (ProjectAssetImage_resolvedSrc True backendMissingFile ''/decks/demo'' (Some ''images/a.png'')
          False initialResolverState) = ''images/a.png'' \<and>
   fst (handleOpenAsset_src True backendMissingFile ''/decks/demo'' ''images/a.png''
          initialResolverState) = ''images/a.png'' \<and>
   resolveProjectAssetSource True backendDataUrl [] ''images/a.png'' initialResolverState =
     (Inr ''images/a.png'', initialResolverState)"
proof -
  note T = resolution_failure_contained
  have san: "normalizeProjectRelativeAsset ''images/a.png'' = Some ''images/a.png''" by code_simp
  have pp: "''/decks/demo'' \<noteq> []" by simp
  have miss: "projectAssetDataUrlCache initialResolverState
      (assetCacheKey ''/decks/demo'' ''images/a.png'') = None"
    by (simp add: initialResolverState_def)
  have fail: "backendMissingFile (backendReads initialResolverState) ''/decks/demo'' ''images/a.png'' =
     Inl (LoadError ''file not found'')"
    by (simp add: backendMissingFile_def)
  have r: "fst (resolveProjectAssetSource True backendMissingFile ''/decks/demo'' ''images/a.png''
          initialResolverState) = Inl (LoadError ''file not found'')"
    using T[THEN conjunct2, THEN conjunct1, rule_format, of "''images/a.png''" "''images/a.png''"
        "''/decks/demo''" initialResolverState backendMissingFile "LoadError ''file not found''"]
      san pp miss fail by blast
  have c: "fst (ProjectAssetImage_resolvedSrc True backendMissingFile ''/decks/demo'' (Some ''images/a.png'')
          False initialResolverState) = ''images/a.png'' \<and>
   fst (handleOpenAsset_src True backendMissingFile ''/decks/demo'' ''images/a.png''
          initialResolverState) = ''images/a.png''"
    using T[THEN conjunct2, THEN conjunct2, rule_format, OF r] .
  have f: "resolveProjectAssetSource True backendDataUrl [] ''images/a.png'' initialResolverState =
     (Inr ''images/a.png'', initialResolverState)"
    using T[THEN conjunct1, rule_format, of "''images/a.png''" "[]" True backendDataUrl initialResolverState]
    by simp
  from san miss fail r c f show ?thesis by blast
qed

section \<open>Properties of the slide index, the preview and the table of contents\<close>

subsection \<open>The active slide index\<close>

lemma maxSlideIndex_nonneg: "0 \<le> maxSlideIndex s"
  by (simp add: maxSlideIndex_def)

lemma fallbackCount_cong:
  "selectedProjectDetail t = selectedProjectDetail s \<Longrightarrow>
   selectedProject t = selectedProject s \<Longrightarrow>
   fallbackCount t = fallbackCount s"
  by (simp add: fallbackCount_def split: option.splits)

lemma max_index_cong:
  "embeddedSlideCount t = embeddedSlideCount s \<Longrightarrow>
   selectedProjectDetail t = selectedProjectDetail s \<Longrightarrow>
   selectedProject t = selectedProject s \<Longrightarrow>
   maxSlideIndex t = maxSlideIndex s"
  using fallbackCount_cong[of t s] by (simp add: maxSlideIndex_def visibleSlideCount_def)

lemma run_append: "run s (xs @ ys) = run (run s xs) ys"
  by (induction xs arbitrary: s) simp_all

lemma buildOutline_synced:
  "length (buildOutline slides) = length slides \<and>
   map index (buildOutline slides) = map int [0..<length slides]"
  by (simp add: buildOutline_def comp_def)

lemma centered_bounds:
  "getCurrentCenteredSlideIndex s n = - 1 \<or>
   (0 \<le> getCurrentCenteredSlideIndex s n \<and>
    getCurrentCenteredSlideIndex s n < int (length (slideElements s)))"
proof (cases "slideElements s = []")
  case True
  then show ?thesis by (simp add: getCurrentCenteredSlideIndex_def)
next
  case False
  then have "0 < length (slideElements s)" by simp
  then have "min n (length (slideElements s) - 1) < length (slideElements s)" by linarith
  with False show ?thesis by (simp add: getCurrentCenteredSlideIndex_def)
qed

lemma toc_entry_index:
  assumes sync: "outlineSynced s"
    and n: "n < length (slideTocEntries (slideOutline s) (visibleSlideCount s))"
  shows "index (slideTocEntries (slideOutline s) (visibleSlideCount s) ! n) = int n \<and>
         int n \<le> maxSlideIndex s"
proof (cases "slideOutline s = []")
  case True
  with n have n': "n < nat (visibleSlideCount s)" by (simp add: slideTocEntries_def)
  then have "int n \<le> maxSlideIndex s" by (simp add: maxSlideIndex_def)
  moreover from True n' have "index (slideTocEntries (slideOutline s) (visibleSlideCount s) ! n) = int n"
    by (simp add: slideTocEntries_def)
  ultimately show ?thesis by simp
next
  case False
  with n have n': "n < length (slideOutline s)" by (simp add: slideTocEntries_def)
  from sync have m: "map index (slideOutline s) = map int [0..<length (slideOutline s)]"
    and c: "embeddedSlideCount s = int (length (slideOutline s))"
    by (simp_all add: outlineSynced_def)
  have "index (slideOutline s ! n) = map index (slideOutline s) ! n" using n' by simp
  also have "\<dots> = int n" unfolding m using n' by simp
  finally have i: "index (slideTocEntries (slideOutline s) (visibleSlideCount s) ! n) = int n"
    using False by (simp add: slideTocEntries_def)
  from c n' have "0 < embeddedSlideCount s" by linarith
  then have "visibleSlideCount s = embeddedSlideCount s" by (simp add: visibleSlideCount_def)
  with c n' have "int n \<le> maxSlideIndex s" by (simp add: maxSlideIndex_def)
  with i show ?thesis by simp
qed

lemma handleTocSelect_fields:
  "embeddedSlideCount (handleTocSelect n s) = embeddedSlideCount s \<and>
   selectedProjectDetail (handleTocSelect n s) = selectedProjectDetail s \<and>
   selectedProject (handleTocSelect n s) = selectedProject s \<and>
   slideOutline (handleTocSelect n s) = slideOutline s \<and>
   clampedFor (handleTocSelect n s) = clampedFor s"
  by (simp add: handleTocSelect_def Let_def)

lemma handleTocSelect_range:
  assumes "outlineSynced s" and "0 \<le> activeSlideIndex s"
  shows "0 \<le> activeSlideIndex (handleTocSelect n s) \<and>
         (activeSlideIndex s \<le> maxSlideIndex s \<longrightarrow>
            activeSlideIndex (handleTocSelect n s) \<le> maxSlideIndex s)"
proof (cases "selectedProject s = None \<or>
    length (slideTocEntries (slideOutline s) (visibleSlideCount s)) \<le> 1 \<or>
    length (slideTocEntries (slideOutline s) (visibleSlideCount s)) \<le> n")
  case True
  then have "handleTocSelect n s = s" by (auto simp: handleTocSelect_def Let_def)
  with assms show ?thesis by simp
next
  case False
  then have n: "n < length (slideTocEntries (slideOutline s) (visibleSlideCount s))" by simp
  from False have "activeSlideIndex (handleTocSelect n s) =
      index (slideTocEntries (slideOutline s) (visibleSlideCount s) ! n)"
    by (auto simp: handleTocSelect_def Let_def)
  with toc_entry_index[OF assms(1) n] show ?thesis by simp
qed

lemma handleKeyDown_fields:
  "embeddedSlideCount (handleKeyDown k s) = embeddedSlideCount s \<and>
   selectedProjectDetail (handleKeyDown k s) = selectedProjectDetail s \<and>
   selectedProject (handleKeyDown k s) = selectedProject s \<and>
   slideOutline (handleKeyDown k s) = slideOutline s \<and>
   clampedFor (handleKeyDown k s) = clampedFor s"
  by (simp add: handleKeyDown_def)

lemma handleKeyDown_nonneg:
  assumes "0 \<le> activeSlideIndex s"
  shows "0 \<le> activeSlideIndex (handleKeyDown k s)"
  using assms maxSlideIndex_nonneg[of s] by (simp add: handleKeyDown_def)

lemma handleKeyDown_range:
  assumes "indexInRange s"
  shows "0 \<le> activeSlideIndex (handleKeyDown k s) \<and> activeSlideIndex (handleKeyDown k s) \<le> maxSlideIndex s"
  using assms maxSlideIndex_nonneg[of s] by (simp add: handleKeyDown_def indexInRange_def)

lemma handleKeyDown_keeps_range:
  assumes "indexInRange s"
  shows "indexInRange (handleKeyDown k s)"
proof -
  have "maxSlideIndex (handleKeyDown k s) = maxSlideIndex s"
    by (rule max_index_cong) (simp_all add: handleKeyDown_fields)
  with handleKeyDown_range[OF assms, of k] show ?thesis by (simp add: indexInRange_def)
qed

lemma handleEvent_nonneg:
  assumes r: "0 \<le> activeSlideIndex s" and sy: "outlineSynced s"
  shows "0 \<le> activeSlideIndex (handleEvent e s)"
proof (cases e)
  case (ViewportFrame n)
  then show ?thesis using r by simp
next
  case (TocSelect n)
  then show ?thesis using handleTocSelect_range[OF sy r, of n] by simp
next
  case (SlidePick n)
  then show ?thesis using r by simp
next
  case (KeyDown k)
  then show ?thesis using handleKeyDown_nonneg[OF r, of k] by simp
next
  case (TogglePresenterMode n)
  then show ?thesis using r by simp
next
  case ClampEffect
  then show ?thesis using r maxSlideIndex_nonneg[of s] by simp
qed (use r in simp_all)

lemma handleEvent_synced:
  assumes sy: "outlineSynced s"
  shows "outlineSynced (handleEvent e s)"
proof (cases e)
  case (TocSelect n)
  then show ?thesis using sy by (simp add: outlineSynced_def handleTocSelect_fields)
next
  case (KeyDown k)
  then show ?thesis using sy by (simp add: outlineSynced_def handleKeyDown_fields)
next
  case SlideEffect
  then show ?thesis using sy buildOutline_synced[of "slideElements s"] by (simp add: outlineSynced_def)
qed (use sy in \<open>simp_all add: outlineSynced_def\<close>)

lemma run_invariant:
  "0 \<le> activeSlideIndex s \<Longrightarrow> outlineSynced s \<Longrightarrow>
   0 \<le> activeSlideIndex (run s es) \<and> outlineSynced (run s es)"
proof (induction es arbitrary: s)
  case Nil
  then show ?case by simp
next
  case (Cons e es)
  show ?case unfolding run.simps
    by (rule Cons.IH[OF handleEvent_nonneg[OF Cons.prems] handleEvent_synced[OF Cons.prems(2)]])
qed

lemma initial_invariant: "0 \<le> activeSlideIndex initialHome \<and> outlineSynced initialHome"
  by (simp add: outlineSynced_def initialHome_def)

lemma reachable_invariant:
  "0 \<le> activeSlideIndex (run initialHome es) \<and> outlineSynced (run initialHome es)"
  using run_invariant[of initialHome es] initial_invariant by simp

lemma clamp_range:
  assumes "0 \<le> activeSlideIndex t"
    and "clampedFor t = Some (maxSlideIndex t) \<Longrightarrow> activeSlideIndex t \<le> maxSlideIndex t"
  shows "indexInRange (handleEvent ClampEffect t) \<and> clampUpToDate (handleEvent ClampEffect t)"
proof (cases "clampedFor t = Some (maxSlideIndex t)")
  case True
  with assms show ?thesis by (simp add: indexInRange_def clampUpToDate_def)
next
  case False
  let ?u = "t\<lparr>activeSlideIndex := min (activeSlideIndex t) (maxSlideIndex t),
             clampedFor := Some (maxSlideIndex t)\<rparr>"
  have m: "maxSlideIndex ?u = maxSlideIndex t" by (rule max_index_cong) simp_all
  have u: "handleEvent ClampEffect t = ?u" using False by simp
  have "indexInRange ?u" unfolding indexInRange_def m
    using assms(1) maxSlideIndex_nonneg[of t] by simp
  moreover have "clampUpToDate ?u" unfolding clampUpToDate_def m by simp
  ultimately show ?thesis unfolding u by simp
qed

lemma clamp_value:
  assumes "\<not> clampUpToDate s"
  shows "activeSlideIndex (handleEvent ClampEffect s) = min (activeSlideIndex s) (maxSlideIndex s)"
  using assms by (simp add: clampUpToDate_def)

lemma event_then_clamp:
  assumes r: "indexInRange s" and sy: "outlineSynced s" and up: "clampUpToDate s"
    and e: "\<not> storesSlidePosition e"
  shows "indexInRange (handleEvent ClampEffect (handleEvent e s)) \<and>
         clampUpToDate (handleEvent ClampEffect (handleEvent e s))"
proof -
  have r0: "0 \<le> activeSlideIndex s" and r1: "activeSlideIndex s \<le> maxSlideIndex s"
    using r by (simp_all add: indexInRange_def)
  have c: "clampedFor s = Some (maxSlideIndex s)" using up by (simp add: clampUpToDate_def)
  have n: "0 \<le> activeSlideIndex (handleEvent e s)" by (rule handleEvent_nonneg[OF r0 sy])
  have "clampedFor (handleEvent e s) = Some (maxSlideIndex (handleEvent e s)) \<Longrightarrow>
        activeSlideIndex (handleEvent e s) \<le> maxSlideIndex (handleEvent e s)"
  proof (cases e)
    case (ViewportFrame n)
    with e show ?thesis by simp
  next
    case (SlidePick n)
    with e show ?thesis by simp
  next
    case (TogglePresenterMode n)
    with e show ?thesis by simp
  next
    case (TocSelect n)
    have m: "maxSlideIndex (handleTocSelect n s) = maxSlideIndex s"
      by (rule max_index_cong) (simp_all add: handleTocSelect_fields)
    from handleTocSelect_range[OF sy r0, of n] r1 m show ?thesis unfolding TocSelect by simp
  next
    case (KeyDown k)
    from handleKeyDown_keeps_range[OF r, of k] show ?thesis
      unfolding KeyDown by (simp add: indexInRange_def)
  next
    case (ProjectSwitched p)
    assume "clampedFor (handleEvent e s) = Some (maxSlideIndex (handleEvent e s))"
    then have "maxSlideIndex (handleEvent e s) = maxSlideIndex s" using c unfolding ProjectSwitched by simp
    then show ?thesis using r1 unfolding ProjectSwitched by simp
  next
    case (SummaryRefreshed p)
    assume "clampedFor (handleEvent e s) = Some (maxSlideIndex (handleEvent e s))"
    then have "maxSlideIndex (handleEvent e s) = maxSlideIndex s" using c unfolding SummaryRefreshed
      by (simp split: if_splits)
    then show ?thesis using r1 unfolding SummaryRefreshed by (simp split: if_splits)
  next
    case (DetailLoaded d)
    assume "clampedFor (handleEvent e s) = Some (maxSlideIndex (handleEvent e s))"
    then have "maxSlideIndex (handleEvent e s) = maxSlideIndex s" using c unfolding DetailLoaded by simp
    then show ?thesis using r1 unfolding DetailLoaded by simp
  next
    case (DeckCommitted slides)
    have "maxSlideIndex (handleEvent e s) = maxSlideIndex s"
      unfolding DeckCommitted by (rule max_index_cong) simp_all
    then show ?thesis using r1 unfolding DeckCommitted by simp
  next
    case ResetEffect
    show ?thesis
    proof (cases "pathChanged s")
      case True
      then have "activeSlideIndex (handleEvent e s) = 0" unfolding ResetEffect by simp
      then show ?thesis using maxSlideIndex_nonneg[of "handleEvent e s"] by simp
    next
      case False
      then show ?thesis using r1 unfolding ResetEffect by simp
    qed
  next
    case SlideEffect
    assume "clampedFor (handleEvent e s) = Some (maxSlideIndex (handleEvent e s))"
    then have "maxSlideIndex (handleEvent e s) = maxSlideIndex s" using c unfolding SlideEffect
      by (simp split: if_splits)
    moreover have "activeSlideIndex (handleEvent e s) = activeSlideIndex s" unfolding SlideEffect by simp
    ultimately show ?thesis using r1 by simp
  next
    case ClampEffect
    then show ?thesis using r1 c by simp
  qed
  with n show ?thesis by (rule clamp_range)
qed

lemma key_next:
  assumes "presenterMode s" "selectedProject s \<noteq> None" "\<not> expandedAsset s"
    and "k = ArrowRight \<or> k = PageDown \<or> k = Space"
  shows "activeSlideIndex (handleEvent (KeyDown k) s) = min (activeSlideIndex s + 1) (maxSlideIndex s)"
  using assms by (auto simp: handleKeyDown_def)

lemma key_prev:
  assumes "presenterMode s" "selectedProject s \<noteq> None" "\<not> expandedAsset s"
    and "k = ArrowLeft \<or> k = PageUp"
  shows "activeSlideIndex (handleEvent (KeyDown k) s) = max (activeSlideIndex s - 1) 0"
  using assms by (auto simp: handleKeyDown_def)

lemma position_stored:
  assumes "storesSlidePosition e"
  shows "activeSlideIndex (handleEvent e s) = activeSlideIndex s \<or>
         (0 \<le> activeSlideIndex (handleEvent e s) \<and>
          activeSlideIndex (handleEvent e s) < int (length (slideElements s)))"
proof (cases e)
  case (ViewportFrame n)
  then show ?thesis using centered_bounds[of s n] by auto
next
  case (SlidePick n)
  then show ?thesis by simp
next
  case (TogglePresenterMode n)
  then show ?thesis using centered_bounds[of s n] by auto
qed (use assms in simp_all)

lemma safeIndex_bounds:
  assumes "0 \<le> a" and "0 < n"
  shows "0 \<le> safeIndex a n \<and> safeIndex a n < int n \<and> (a < int n \<longrightarrow> safeIndex a n = a)"
  using assms by (simp add: safeIndex_def)

text \<open>
  Claim C7 as stated (after every operation that can change it the active slide index is
  within \<open>0 \<dots> max(slideCount - 1, 0)\<close>) fails after a project switch.  The frame callback,
  the slide click and the mode switch store the position of a slide of the document
  without comparing it with the slide count, and the deck of the project left behind stays
  in the document until the preview commits its next render.  With a first deck of three
  slides scrolled to its third slide and a switch to a project of two slides, the render
  that follows the answer of \<open>load_project\<close> has index 2 and slide count 2 before the clamp
  effect has run; a frame on the old deck after the clamp effect stores 2 again, and the
  index is still 2 when the two slides of the new deck are rendered and every effect has
  run.
\<close>

theorem active_index_above_count:
  "activeSlideIndex (run initialHome (openFirstDeck @ switchProject)) = 2 \<and>
   visibleSlideCount (run initialHome (openFirstDeck @ switchProject)) = 2 \<and>
   maxSlideIndex (run initialHome (openFirstDeck @ switchProject)) = 1 \<and>
   length (slideElements (run initialHome (openFirstDeck @ switchProject))) = 3 \<and>
   activeSlideIndex
     (run initialHome (openFirstDeck @ switchProject @ scrollOldDeck @ renderSecondDeck)) = 2 \<and>
   visibleSlideCount
     (run initialHome (openFirstDeck @ switchProject @ scrollOldDeck @ renderSecondDeck)) = 2 \<and>
   embeddedSlideCount
     (run initialHome (openFirstDeck @ switchProject @ scrollOldDeck @ renderSecondDeck)) = 2 \<and>
   clampUpToDate
     (run initialHome (openFirstDeck @ switchProject @ scrollOldDeck @ renderSecondDeck)) \<and>
   indexInRange
     (run initialHome (openFirstDeck @ switchProject @ scrollOldDeck @ renderSecondDeck)) = False"
  by (intro conjI; code_simp)

text \<open>
  Claim C7, amended.  The active slide index is never negative.  The next and previous
  keys of the presenter mode give \<open>min(index + 1, maxSlideIndex)\<close> and \<open>max(index - 1, 0)\<close>,
  where \<open>maxSlideIndex\<close> is \<open>max(slideCount - 1, 0)\<close> and \<open>slideCount\<close> is \<open>visibleSlideCount\<close>:
  they stop at both ends without wrapping, and every key leaves an index that is in range
  in range.  The clamp effect, which runs after a render whose \<open>maxSlideIndex\<close> has
  changed, gives \<open>min(index, maxSlideIndex)\<close>.  From a state with the index in range and
  the clamp effect up to date, every event other than the frame callback, the slide click
  and the mode switch (so a selection in the table of contents, a key, a project switch, a
  new summary or detail, a committed deck, the reset and the slide effect), followed by the
  clamp effect, leaves the index in range and the clamp effect up to date.  The frame
  callback, the slide click and the mode switch leave the index as it is or store the
  position of a slide of the document, whatever the slide count is; the preview marks the
  slide \<open>min(activeSlideIndex, slides.length - 1)\<close>, which is one of its slides when it has
  any.  Index 4 of five slides and a recompile that leaves three slides give index 2.
\<close>

theorem active_index_bounds:
  "0 \<le> activeSlideIndex (run initialHome es) \<and>
   (presenterMode s \<and> selectedProject s \<noteq> None \<and> \<not> expandedAsset s \<and>
    (k = ArrowRight \<or> k = PageDown \<or> k = Space) \<longrightarrow>
      activeSlideIndex (handleEvent (KeyDown k) s) = min (activeSlideIndex s + 1) (maxSlideIndex s)) \<and>
   (presenterMode s \<and> selectedProject s \<noteq> None \<and> \<not> expandedAsset s \<and>
    (k = ArrowLeft \<or> k = PageUp) \<longrightarrow>
      activeSlideIndex (handleEvent (KeyDown k) s) = max (activeSlideIndex s - 1) 0) \<and>
   (indexInRange s \<longrightarrow> indexInRange (handleEvent (KeyDown k) s)) \<and>
   (\<not> clampUpToDate s \<longrightarrow>
      activeSlideIndex (handleEvent ClampEffect s) = min (activeSlideIndex s) (maxSlideIndex s) \<and>
      maxSlideIndex (handleEvent ClampEffect s) = maxSlideIndex s \<and>
      clampUpToDate (handleEvent ClampEffect s)) \<and>
   (indexInRange (run initialHome es) \<and> clampUpToDate (run initialHome es) \<and>
    \<not> storesSlidePosition e \<longrightarrow>
      indexInRange (run initialHome (es @ [e, ClampEffect])) \<and>
      clampUpToDate (run initialHome (es @ [e, ClampEffect]))) \<and>
   (storesSlidePosition e \<longrightarrow>
      activeSlideIndex (handleEvent e s) = activeSlideIndex s \<or>
      (0 \<le> activeSlideIndex (handleEvent e s) \<and>
       activeSlideIndex (handleEvent e s) < int (length (slideElements s)))) \<and>
   (0 < n \<longrightarrow>
      0 \<le> safeIndex (activeSlideIndex (run initialHome es)) n \<and>
      safeIndex (activeSlideIndex (run initialHome es)) n < int n) \<and>
   activeSlideIndex (run initialHome presentFifthSlide) = 4 \<and>
   visibleSlideCount (run initialHome presentFifthSlide) = 5 \<and>
   activeSlideIndex (run initialHome (presentFifthSlide @ recompileToThree)) = 2 \<and>
   visibleSlideCount (run initialHome (presentFifthSlide @ recompileToThree)) = 3"
proof (intro conjI impI)
  show "0 \<le> activeSlideIndex (run initialHome es)"
    using reachable_invariant[of es] by simp
next
  assume "presenterMode s \<and> selectedProject s \<noteq> None \<and> \<not> expandedAsset s \<and>
    (k = ArrowRight \<or> k = PageDown \<or> k = Space)"
  then show "activeSlideIndex (handleEvent (KeyDown k) s) = min (activeSlideIndex s + 1) (maxSlideIndex s)"
    by (intro key_next) simp_all
next
  assume "presenterMode s \<and> selectedProject s \<noteq> None \<and> \<not> expandedAsset s \<and>
    (k = ArrowLeft \<or> k = PageUp)"
  then show "activeSlideIndex (handleEvent (KeyDown k) s) = max (activeSlideIndex s - 1) 0"
    by (intro key_prev) simp_all
next
  assume "indexInRange s"
  then show "indexInRange (handleEvent (KeyDown k) s)"
    unfolding handleEvent.simps by (rule handleKeyDown_keeps_range)
next
  assume "\<not> clampUpToDate s"
  then show "activeSlideIndex (handleEvent ClampEffect s) = min (activeSlideIndex s) (maxSlideIndex s)"
    by (rule clamp_value)
next
  show "maxSlideIndex (handleEvent ClampEffect s) = maxSlideIndex s"
    by (rule max_index_cong) simp_all
next
  have "maxSlideIndex (handleEvent ClampEffect s) = maxSlideIndex s"
    by (rule max_index_cong) simp_all
  then show "clampUpToDate (handleEvent ClampEffect s)"
    unfolding clampUpToDate_def by simp
next
  assume a: "indexInRange (run initialHome es) \<and> clampUpToDate (run initialHome es) \<and>
    \<not> storesSlidePosition e"
  have sy: "outlineSynced (run initialHome es)" using reachable_invariant[of es] by simp
  have r: "run initialHome (es @ [e, ClampEffect]) =
      handleEvent ClampEffect (handleEvent e (run initialHome es))"
    by (simp add: run_append)
  from a sy have "indexInRange (handleEvent ClampEffect (handleEvent e (run initialHome es))) \<and>
      clampUpToDate (handleEvent ClampEffect (handleEvent e (run initialHome es)))"
    by (intro event_then_clamp) simp_all
  then show "indexInRange (run initialHome (es @ [e, ClampEffect]))"
    "clampUpToDate (run initialHome (es @ [e, ClampEffect]))"
    unfolding r by simp_all
next
  assume "storesSlidePosition e"
  then show "activeSlideIndex (handleEvent e s) = activeSlideIndex s \<or>
      (0 \<le> activeSlideIndex (handleEvent e s) \<and>
       activeSlideIndex (handleEvent e s) < int (length (slideElements s)))"
    by (rule position_stored)
next
  assume n: "0 < n"
  have "0 \<le> activeSlideIndex (run initialHome es)" using reachable_invariant[of es] by simp
  from safeIndex_bounds[OF this n]
  show "0 \<le> safeIndex (activeSlideIndex (run initialHome es)) n"
    "safeIndex (activeSlideIndex (run initialHome es)) n < int n"
    by simp_all
next
  show "activeSlideIndex (run initialHome presentFifthSlide) = 4" by code_simp
next
  show "visibleSlideCount (run initialHome presentFifthSlide) = 5" by code_simp
next
  show "activeSlideIndex (run initialHome (presentFifthSlide @ recompileToThree)) = 2" by code_simp
next
  show "visibleSlideCount (run initialHome (presentFifthSlide @ recompileToThree)) = 3" by code_simp
qed

theorem active_index_bounds_witness:
  "activeSlideIndex (handleEvent (KeyDown ArrowRight) (run initialHome presentFifthSlide)) = 4 \<and>
   activeSlideIndex (handleEvent (KeyDown PageUp) (run initialHome presentFifthSlide)) = 3 \<and>
   activeSlideIndex (handleEvent (KeyDown PageUp)
      (run initialHome (presentFifthSlide @ recompileToThree @
         [KeyDown ArrowLeft, KeyDown ArrowLeft]))) = 0 \<and>
   indexInRange (handleEvent (KeyDown Space) (run initialHome presentFifthSlide)) \<and>
   activeSlideIndex (handleEvent ClampEffect
      (run initialHome (presentFifthSlide @
         [DetailLoaded (Some 3), ClampEffect, DeckCommitted [], SlideEffect]))) = 2 \<and>
   indexInRange (run initialHome
      ((presentFifthSlide @ [DetailLoaded (Some 3), ClampEffect, DeckCommitted []]) @
       [SlideEffect, ClampEffect])) \<and>
   indexInRange (run initialHome (openFirstDeck @ [TocSelect 1, ClampEffect])) \<and>
   activeSlideIndex (run initialHome (openFirstDeck @ [TocSelect 1, ClampEffect])) = 1 \<and>
   activeSlideIndex (handleEvent (ViewportFrame 2)
      (run initialHome (openFirstDeck @ switchProject @ [ClampEffect]))) = 2 \<and>
   visibleSlideCount (run initialHome (openFirstDeck @ switchProject @ [ClampEffect])) = 2 \<and>
   activeSlideIndex (handleEvent (ViewportFrame 2)
      (run initialHome (openFirstDeck @ switchProject @ [ClampEffect])))
     < int (length (slideElements (run initialHome (openFirstDeck @ switchProject @ [ClampEffect])))) \<and>
   safeIndex (activeSlideIndex
      (run initialHome (openFirstDeck @ switchProject @ scrollOldDeck @ renderSecondDeck))) 2 = 1 \<and>
   0 \<le> activeSlideIndex
      (run initialHome (openFirstDeck @ switchProject @ scrollOldDeck @ renderSecondDeck))"
proof -
  note T = active_index_bounds
  let ?p = "run initialHome presentFifthSlide"
  have p: "presenterMode ?p \<and> selectedProject ?p \<noteq> None \<and> \<not> expandedAsset ?p" by code_simp
  have ip: "activeSlideIndex ?p = 4" and mp: "maxSlideIndex ?p = 4" by code_simp+
  have "activeSlideIndex (handleEvent (KeyDown ArrowRight) ?p) = min (activeSlideIndex ?p + 1) (maxSlideIndex ?p)"
    using T[where s = ?p and k = ArrowRight] p by blast
  then have 1: "activeSlideIndex (handleEvent (KeyDown ArrowRight) ?p) = 4"
    unfolding ip mp by simp
  have "activeSlideIndex (handleEvent (KeyDown PageUp) ?p) = max (activeSlideIndex ?p - 1) 0"
    using T[where s = ?p and k = PageUp] p by blast
  then have 2: "activeSlideIndex (handleEvent (KeyDown PageUp) ?p) = 3"
    unfolding ip by simp
  let ?z = "run initialHome (presentFifthSlide @ recompileToThree @
         [KeyDown ArrowLeft, KeyDown ArrowLeft])"
  have z: "presenterMode ?z \<and> selectedProject ?z \<noteq> None \<and> \<not> expandedAsset ?z" by code_simp
  have iz: "activeSlideIndex ?z = 0" by code_simp
  have "activeSlideIndex (handleEvent (KeyDown PageUp) ?z) = max (activeSlideIndex ?z - 1) 0"
    using T[where s = ?z and k = PageUp] z by blast
  then have 3: "activeSlideIndex (handleEvent (KeyDown PageUp) ?z) = 0"
    unfolding iz by simp
  have rp: "indexInRange ?p" by code_simp
  have 4: "indexInRange (handleEvent (KeyDown Space) ?p)"
    using T[where s = ?p and k = Space] rp by blast
  let ?c = "run initialHome (presentFifthSlide @
         [DetailLoaded (Some 3), ClampEffect, DeckCommitted [], SlideEffect])"
  have c: "\<not> clampUpToDate ?c" by code_simp
  have ic: "activeSlideIndex ?c = 4" and mc: "maxSlideIndex ?c = 2" by code_simp+
  have "activeSlideIndex (handleEvent ClampEffect ?c) = min (activeSlideIndex ?c) (maxSlideIndex ?c)"
    using T[where s = ?c] c by blast
  then have 5: "activeSlideIndex (handleEvent ClampEffect ?c) = 2"
    unfolding ic mc by simp
  let ?es = "presentFifthSlide @ [DetailLoaded (Some 3), ClampEffect, DeckCommitted []]"
  have e: "indexInRange (run initialHome ?es) \<and> clampUpToDate (run initialHome ?es) \<and>
      \<not> storesSlidePosition SlideEffect" by code_simp
  have 6: "indexInRange (run initialHome (?es @ [SlideEffect, ClampEffect]))"
    using T[where es = ?es and e = SlideEffect] e by blast
  have t: "indexInRange (run initialHome openFirstDeck) \<and> clampUpToDate (run initialHome openFirstDeck) \<and>
      \<not> storesSlidePosition (TocSelect 1)" by code_simp
  have 7: "indexInRange (run initialHome (openFirstDeck @ [TocSelect 1, ClampEffect]))"
    using T[where es = openFirstDeck and e = "TocSelect 1"] t by blast
  have 8: "activeSlideIndex (run initialHome (openFirstDeck @ [TocSelect 1, ClampEffect])) = 1"
    by code_simp
  let ?o = "run initialHome (openFirstDeck @ switchProject @ [ClampEffect])"
  have 9: "activeSlideIndex (handleEvent (ViewportFrame 2) ?o) = 2" by code_simp
  have 10: "visibleSlideCount ?o = 2" by code_simp
  have io: "activeSlideIndex ?o = 1" by code_simp
  have "storesSlidePosition (ViewportFrame 2)" by simp
  then have "activeSlideIndex (handleEvent (ViewportFrame 2) ?o) = activeSlideIndex ?o \<or>
      (0 \<le> activeSlideIndex (handleEvent (ViewportFrame 2) ?o) \<and>
       activeSlideIndex (handleEvent (ViewportFrame 2) ?o) < int (length (slideElements ?o)))"
    using T[where s = ?o and e = "ViewportFrame 2"] by blast
  then have 11: "activeSlideIndex (handleEvent (ViewportFrame 2) ?o) < int (length (slideElements ?o))"
    unfolding 9 io by simp
  let ?y = "run initialHome (openFirstDeck @ switchProject @ scrollOldDeck @ renderSecondDeck)"
  have 12: "safeIndex (activeSlideIndex ?y) 2 = 1" by code_simp
  have 13: "0 \<le> activeSlideIndex ?y"
    using T[where es = "openFirstDeck @ switchProject @ scrollOldDeck @ renderSecondDeck"] by blast
  from 1 2 3 4 5 6 7 8 9 10 11 12 13 show ?thesis by blast
qed

subsection \<open>Stale compile results\<close>

lemma length_cleanupLast: "length (cleanupLast rs) = length rs"
  by (simp add: cleanupLast_def)

lemma cleanupLast_all: "list_all cancelled (butlast rs) \<Longrightarrow> list_all cancelled (cleanupLast rs)"
proof (cases rs rule: rev_cases)
  case Nil
  then show ?thesis by (simp add: cleanupLast_def)
next
  case (snoc ys y)
  assume "list_all cancelled (butlast rs)"
  with snoc show ?thesis by (simp add: cleanupLast_def)
qed

lemma runs_sourceChanged:
  "runs (sourceChanged source s) =
     cleanupLast (runs s) @ [\<lparr>cancelled = False, inFlight = length (trim source) \<noteq> 0\<rparr>]"
  by (simp add: sourceChanged_def)

lemma rendered_sourceChanged:
  "rendered (sourceChanged source s) =
     (None, if length (trim source) = 0 then ''Project has an empty page.mdx.'' else [])"
  by (simp add: sourceChanged_def rendered_def)

lemma sourceChanged_stale: "staleCancelled s \<Longrightarrow> staleCancelled (sourceChanged source s)"
  by (simp add: staleCancelled_def runs_sourceChanged cleanupLast_all)

lemma settle_runs:
  "runs (settle i r s) =
     (if i < length (runs s) \<and> inFlight (runs s ! i)
      then (runs s)[i := (runs s ! i)\<lparr>inFlight := False\<rparr>] else runs s)"
  by (cases r) (simp_all add: settle_def Let_def)

lemma staleCancelled_iff:
  "staleCancelled s \<longleftrightarrow> (\<forall>i. i + 1 < length (runs s) \<longrightarrow> cancelled (runs s ! i))"
  by (auto simp: staleCancelled_def list_all_length nth_butlast)

lemma settle_keeps_cancelled:
  "cancelled (runs (settle i r s) ! j) = cancelled (runs s ! j)"
proof (cases "i < length (runs s) \<and> inFlight (runs s ! i)")
  case True
  then have "runs (settle i r s) = (runs s)[i := (runs s ! i)\<lparr>inFlight := False\<rparr>]"
    by (simp add: settle_runs)
  with True show ?thesis by (cases "i = j") simp_all
next
  case False
  then have "runs (settle i r s) = runs s" by (auto simp: settle_runs)
  then show ?thesis by simp
qed

lemma settle_length: "length (runs (settle i r s)) = length (runs s)"
  by (simp add: settle_runs)

lemma settle_stale:
  assumes "staleCancelled s"
  shows "staleCancelled (settle i r s)"
  using assms by (simp add: staleCancelled_iff settle_keeps_cancelled settle_length)

lemma settle_rendered_cong:
  assumes "rendered s = rendered s'" and "length (runs s) = length (runs s')"
    and "runs s ! i = runs s' ! i"
  shows "rendered (settle i r s) = rendered (settle i r s')"
  using assms by (cases r) (simp_all add: settle_def Let_def rendered_def)

lemma settle_other_run:
  "i \<noteq> j \<Longrightarrow> runs (settle i r s) ! j = runs s ! j"
  by (simp add: settle_runs)

lemma settle_cancelled_rendered:
  assumes "i < length (runs s) \<Longrightarrow> cancelled (runs s ! i)"
  shows "rendered (settle i r s) = rendered s"
  using assms by (simp add: settle_def Let_def rendered_def)

lemma settle_stale_run:
  assumes st: "staleCancelled s" and i: "i + 1 < length (runs s)"
  shows "rendered (settle i r s) = rendered s"
proof (rule settle_cancelled_rendered)
  from st i show "cancelled (runs s ! i)" by (simp add: staleCancelled_iff)
qed

lemma settle_live_rendered:
  assumes "i < length (runs s)" "inFlight (runs s ! i)" "\<not> cancelled (runs s ! i)"
  shows "rendered (settle i r s) =
     (case r of Compiled m \<Rightarrow> (Some m, error s) | CompileFailed msg \<Rightarrow> (CompiledDeck s, msg))"
  using assms by (cases r) (simp_all add: settle_def Let_def rendered_def)

lemma initial_stale: "staleCancelled initialPreview"
  by (simp add: staleCancelled_def initialPreview_def)

lemma two_issues_runs:
  "runs (sourceChanged B (sourceChanged A s)) =
     cleanupLast (cleanupLast (runs s) @ [\<lparr>cancelled = False, inFlight = length (trim A) \<noteq> 0\<rparr>]) @
       [\<lparr>cancelled = False, inFlight = length (trim B) \<noteq> 0\<rparr>]"
  by (simp only: runs_sourceChanged)

lemma cleanupLast_snoc: "cleanupLast (rs @ [r]) = rs @ [r\<lparr>cancelled := True\<rparr>]"
  by (simp add: cleanupLast_def)

lemma first_run_cancelled:
  "length (runs s) < length (runs (sourceChanged B (sourceChanged A s))) \<and>
   cancelled (runs (sourceChanged B (sourceChanged A s)) ! length (runs s))"
  by (simp add: two_issues_runs cleanupLast_snoc length_cleanupLast nth_append)

lemma second_run_live:
  "runs (sourceChanged B (sourceChanged A s)) ! (length (runs s) + 1) =
     \<lparr>cancelled = False, inFlight = length (trim B) \<noteq> 0\<rparr> \<and>
   length (runs (sourceChanged B (sourceChanged A s))) = length (runs s) + 2"
  by (simp add: two_issues_runs cleanupLast_snoc length_cleanupLast nth_append)

text \<open>
  Claim C8.  Let the compile effect run for source \<open>A\<close> and then, before \<open>A\<close>'s compile
  settles, for source \<open>B\<close>.  When \<open>A\<close>'s result arrives after \<open>B\<close>'s, what the preview shows
  stays what \<open>B\<close>'s result made it; when it arrives before \<open>B\<close>'s, it changes nothing either;
  and \<open>B\<close>'s result (for a non-blank \<open>B\<close>) is what is shown.  In general every run but the
  latest is cancelled, in every state reached from the initial one, and the result of a
  cancelled run changes nothing that is shown.
\<close>

theorem stale_compile_discarded:
  "rendered (settle (length (runs s)) rA
      (settle (length (runs s) + 1) rB (sourceChanged B (sourceChanged A s)))) =
     rendered (settle (length (runs s) + 1) rB (sourceChanged B (sourceChanged A s))) \<and>
   rendered (settle (length (runs s) + 1) rB
      (settle (length (runs s)) rA (sourceChanged B (sourceChanged A s)))) =
     rendered (settle (length (runs s) + 1) rB (sourceChanged B (sourceChanged A s))) \<and>
   (length (trim B) \<noteq> 0 \<longrightarrow>
      rendered (settle (length (runs s) + 1) rB (sourceChanged B (sourceChanged A s))) =
        (case rB of Compiled module \<Rightarrow> (Some module, []) | CompileFailed message \<Rightarrow> (None, message))) \<and>
   (staleCancelled t \<and> i + 1 < length (runs t) \<longrightarrow> rendered (settle i r t) = rendered t) \<and>
   staleCancelled (initialPreview :: 'd preview_state) \<and>
   (staleCancelled t \<longrightarrow> staleCancelled (sourceChanged source t) \<and> staleCancelled (settle i r t))"
proof (intro conjI impI)
  let ?a = "length (runs s)"
  let ?s2 = "sourceChanged B (sourceChanged A s)"
  let ?sb = "settle (?a + 1) rB ?s2"
  have "cancelled (runs ?sb ! ?a)"
    using first_run_cancelled[of s B A] by (simp add: settle_keeps_cancelled)
  then show "rendered (settle ?a rA ?sb) = rendered ?sb"
    by (intro settle_cancelled_rendered)
  have e: "rendered (settle ?a rA ?s2) = rendered ?s2"
    using first_run_cancelled[of s B A] by (intro settle_cancelled_rendered) simp
  let ?sa = "settle ?a rA ?s2"
  show "rendered (settle (?a + 1) rB ?sa) = rendered ?sb"
    by (rule settle_rendered_cong) (simp_all add: e settle_length settle_other_run)
next
  assume b: "length (trim B) \<noteq> 0"
  let ?s2 = "sourceChanged B (sourceChanged A s)"
  have r2: "rendered ?s2 = (None, [])" using b by (simp add: rendered_sourceChanged)
  have "rendered (settle (length (runs s) + 1) rB ?s2) =
     (case rB of Compiled m \<Rightarrow> (Some m, error ?s2) | CompileFailed msg \<Rightarrow> (CompiledDeck ?s2, msg))"
    using second_run_live[of B A s] b by (intro settle_live_rendered) simp_all
  with r2 show "rendered (settle (length (runs s) + 1) rB ?s2) =
        (case rB of Compiled module \<Rightarrow> (Some module, []) | CompileFailed message \<Rightarrow> (None, message))"
    by (cases rB) (simp_all add: rendered_def)
next
  assume "staleCancelled t \<and> i + 1 < length (runs t)"
  then show "rendered (settle i r t) = rendered t" by (intro settle_stale_run) simp_all
next
  show "staleCancelled (initialPreview :: 'd preview_state)" by (rule initial_stale)
next
  assume a: "staleCancelled t"
  then show "staleCancelled (sourceChanged source t)" by (rule sourceChanged_stale)
  from a show "staleCancelled (settle i r t)" by (rule settle_stale)
qed

theorem stale_compile_discarded_witness:
  "length (trim ''# B'') \<noteq> 0 \<and>
   rendered (settle 0 (Compiled ''deck A'')
      (settle 1 (Compiled ''deck B'') (sourceChanged ''# B'' (sourceChanged ''# A'' initialPreview)))) =
     (Some ''deck B'', []) \<and>
   staleCancelled (sourceChanged ''# B'' (sourceChanged ''# A'' (initialPreview :: string preview_state))) \<and>
   rendered (settle 0 (CompileFailed ''Unexpected token'')
      (sourceChanged ''# B'' (sourceChanged ''# A'' (initialPreview :: string preview_state)))) =
     (None, [])"
proof -
  note T = stale_compile_discarded
  let ?s = "initialPreview :: string preview_state"
  let ?s2 = "sourceChanged ''# B'' (sourceChanged ''# A'' ?s)"
  have l: "length (runs ?s) = 0" by (simp add: initialPreview_def)
  have b: "length (trim ''# B'') \<noteq> 0" by code_simp
  note I = T[where s = ?s and rA = "Compiled ''deck A''" and rB = "Compiled ''deck B''"
      and A = "''# A''" and B = "''# B''"]
  have 1: "rendered (settle (length (runs ?s)) (Compiled ''deck A'')
      (settle (length (runs ?s) + 1) (Compiled ''deck B'') ?s2)) =
     rendered (settle (length (runs ?s) + 1) (Compiled ''deck B'') ?s2)"
    using I by blast
  have "rendered (settle (length (runs ?s) + 1) (Compiled ''deck B'') ?s2) =
     (case Compiled ''deck B'' of Compiled module \<Rightarrow> (Some module, [])
      | CompileFailed message \<Rightarrow> (None, message))"
    using I b by blast
  then have 2: "rendered (settle (length (runs ?s) + 1) (Compiled ''deck B'') ?s2) = (Some ''deck B'', [])"
    by simp
  from 1 2 have r: "rendered (settle 0 (Compiled ''deck A'') (settle 1 (Compiled ''deck B'') ?s2)) =
     (Some ''deck B'', [])" by (simp add: l)
  have st0: "staleCancelled ?s" using T[where 'd = string] by blast
  have st1: "staleCancelled (sourceChanged ''# A'' ?s)"
    using T[where t = ?s and source = "''# A''"] st0 by blast
  have st: "staleCancelled ?s2"
    using T[where t = "sourceChanged ''# A'' ?s" and source = "''# B''"] st1 by blast
  have len: "0 + 1 < length (runs ?s2)" by (simp add: sourceChanged_def cleanupLast_def)
  have "rendered (settle 0 (CompileFailed ''Unexpected token'') ?s2) = rendered ?s2"
    using T[where t = ?s2 and i = 0 and r = "CompileFailed ''Unexpected token''"] st len by blast
  moreover have "rendered ?s2 = (None, [])" using b by (simp add: rendered_sourceChanged)
  ultimately have f: "rendered (settle 0 (CompileFailed ''Unexpected token'') ?s2) = (None, [])"
    by simp
  from b r st f show ?thesis by blast
qed

subsection \<open>The table of contents\<close>

lemma rail_null_iff: "SlideTocRail entries activeIndex = None \<longleftrightarrow> length entries \<le> 1"
  by (simp add: SlideTocRail_def)

lemma entries_of_outline: "outline \<noteq> [] \<Longrightarrow> slideTocEntries outline n = outline"
  by (simp add: slideTocEntries_def)

lemma entries_synth:
  "slideTocEntries [] n =
     map (\<lambda>i. \<lparr>index = int i, title = ''Slide '' @ numberToString (int i + 1)\<rparr>) [0..<nat n]"
  by (simp add: slideTocEntries_def)

lemma length_entries_synth: "length (slideTocEntries [] n) = nat n"
  by (simp add: entries_synth)

text \<open>
  Claim C10.  \<open>SlideTocRail\<close> renders nothing exactly when it gets at most one entry.  A deck
  of one slide (an outline of one entry, or no outline and a count of at most one) shows
  no table of contents.  With an empty outline and a slide count of at least two, one
  entry \<open>Slide N\<close> per slide is made and the rail is rendered, each entry marked active when
  its index is the active one; so it is when the count comes from the fallback.
\<close>

theorem toc_rail_visibility:
  "(SlideTocRail entries activeIndex = None \<longleftrightarrow> length entries \<le> 1) \<and>
   (length outline = 1 \<longrightarrow> SlideTocRail (slideTocEntries outline n) activeIndex = None) \<and>
   (n \<le> 1 \<longrightarrow> SlideTocRail (slideTocEntries [] n) activeIndex = None) \<and>
   (2 \<le> n \<longrightarrow>
      slideTocEntries [] n =
        map (\<lambda>i. \<lparr>index = int i, title = ''Slide '' @ numberToString (int i + 1)\<rparr>) [0..<nat n] \<and>
      length (slideTocEntries [] n) = nat n \<and>
      SlideTocRail (slideTocEntries [] n) activeIndex =
        Some (map (\<lambda>entry. (entry, index entry = activeIndex)) (slideTocEntries [] n))) \<and>
   (slideOutline s = [] \<and> embeddedSlideCount s = 0 \<and> 2 \<le> fallbackCount s \<longrightarrow>
      visibleSlideCount s = fallbackCount s \<and>
      SlideTocRail (slideTocEntries (slideOutline s) (visibleSlideCount s)) activeIndex \<noteq> None) \<and>
   slideTocEntries [] 3 =
     [\<lparr>index = 0, title = ''Slide 1''\<rparr>, \<lparr>index = 1, title = ''Slide 2''\<rparr>,
      \<lparr>index = 2, title = ''Slide 3''\<rparr>]"
proof (intro conjI impI)
  show "SlideTocRail entries activeIndex = None \<longleftrightarrow> length entries \<le> 1" by (rule rail_null_iff)
next
  assume "length outline = 1"
  then show "SlideTocRail (slideTocEntries outline n) activeIndex = None"
    by (simp add: slideTocEntries_def SlideTocRail_def)
next
  assume "n \<le> 1"
  then show "SlideTocRail (slideTocEntries [] n) activeIndex = None"
    by (simp add: rail_null_iff length_entries_synth)
next
  show "slideTocEntries [] n =
        map (\<lambda>i. \<lparr>index = int i, title = ''Slide '' @ numberToString (int i + 1)\<rparr>) [0..<nat n]"
    by (rule entries_synth)
next
  show "length (slideTocEntries [] n) = nat n" by (rule length_entries_synth)
next
  assume "2 \<le> n"
  then have "\<not> length (slideTocEntries [] n) \<le> 1" by (simp add: length_entries_synth)
  then show "SlideTocRail (slideTocEntries [] n) activeIndex =
        Some (map (\<lambda>entry. (entry, index entry = activeIndex)) (slideTocEntries [] n))"
    unfolding SlideTocRail_def by simp
next
  assume a: "slideOutline s = [] \<and> embeddedSlideCount s = 0 \<and> 2 \<le> fallbackCount s"
  then show "visibleSlideCount s = fallbackCount s" by (simp add: visibleSlideCount_def)
next
  assume a: "slideOutline s = [] \<and> embeddedSlideCount s = 0 \<and> 2 \<le> fallbackCount s"
  then have "length (slideTocEntries (slideOutline s) (visibleSlideCount s)) = nat (fallbackCount s)"
    by (simp add: visibleSlideCount_def length_entries_synth)
  moreover from a have "2 \<le> nat (fallbackCount s)" by linarith
  ultimately show "SlideTocRail (slideTocEntries (slideOutline s) (visibleSlideCount s)) activeIndex \<noteq> None"
    by (simp add: rail_null_iff)
next
  show "slideTocEntries [] 3 =
     [\<lparr>index = 0, title = ''Slide 1''\<rparr>, \<lparr>index = 1, title = ''Slide 2''\<rparr>,
      \<lparr>index = 2, title = ''Slide 3''\<rparr>]"
    by code_simp
qed

theorem toc_rail_visibility_witness:
  "length [\<lparr>index = 0, title = ''Only''\<rparr>] = 1 \<and>
   SlideTocRail (slideTocEntries [\<lparr>index = 0, title = ''Only''\<rparr>] 1) 0 = None \<and>
   SlideTocRail (slideTocEntries [] 1) 0 = None \<and>
   SlideTocRail (slideTocEntries [] 2) 0 =
     Some [(\<lparr>index = 0, title = ''Slide 1''\<rparr>, True), (\<lparr>index = 1, title = ''Slide 2''\<rparr>, False)] \<and>
   SlideTocRail
     (slideTocEntries (slideOutline (initialHome\<lparr>selectedProjectDetail := Some 4\<rparr>))
        (visibleSlideCount (initialHome\<lparr>selectedProjectDetail := Some 4\<rparr>))) 0 \<noteq> None"
proof -
  note T = toc_rail_visibility
  have a: "length [\<lparr>index = 0, title = ''Only''\<rparr>] = 1" by simp
  have 1: "SlideTocRail (slideTocEntries [\<lparr>index = 0, title = ''Only''\<rparr>] 1) 0 = None"
    using T[where outline = "[\<lparr>index = 0, title = ''Only''\<rparr>]" and n = 1 and activeIndex = 0] a by blast
  have "(1::int) \<le> 1" by simp
  then have 2: "SlideTocRail (slideTocEntries [] 1) 0 = None"
    using T[where n = 1 and activeIndex = 0] by blast
  have "(2::int) \<le> 2" by simp
  then have "SlideTocRail (slideTocEntries [] 2) 0 =
        Some (map (\<lambda>entry. (entry, index entry = 0)) (slideTocEntries [] 2))"
    using T[where n = 2 and activeIndex = 0] by blast
  moreover have "slideTocEntries [] 2 = [\<lparr>index = 0, title = ''Slide 1''\<rparr>, \<lparr>index = 1, title = ''Slide 2''\<rparr>]"
    by code_simp
  ultimately have 3: "SlideTocRail (slideTocEntries [] 2) 0 =
     Some [(\<lparr>index = 0, title = ''Slide 1''\<rparr>, True), (\<lparr>index = 1, title = ''Slide 2''\<rparr>, False)]"
    by simp
  let ?h = "initialHome\<lparr>selectedProjectDetail := Some 4\<rparr>"
  have h: "slideOutline ?h = [] \<and> embeddedSlideCount ?h = 0 \<and> 2 \<le> fallbackCount ?h"
    by (simp add: initialHome_def fallbackCount_def)
  have 4: "SlideTocRail (slideTocEntries (slideOutline ?h) (visibleSlideCount ?h)) 0 \<noteq> None"
    using T[where s = ?h and activeIndex = 0] h by blast
  from a 1 2 3 4 show ?thesis by blast
qed

section \<open>Properties of the token style sheet\<close>

lemma firstSome_hit: "f x = Some y \<Longrightarrow> firstSome f (x # xs) = Some y"
  by simp

lemma firstSome_none: "\<forall>x\<in>set xs. f x = None \<Longrightarrow> firstSome f xs = None"
  by (induction xs) simp_all

lemma firstSome_skip: "\<forall>x\<in>set xs. f x = None \<Longrightarrow> firstSome f (xs @ ys) = firstSome f ys"
  by (induction xs) simp_all

lemma greedyLengths_hd:
  "least \<le> length (takeWhile P s) \<Longrightarrow>
   greedyLengths least P s = length (takeWhile P s) # rev [least..<length (takeWhile P s)]"
  by (simp add: greedyLengths_def)

lemma takeWhile_stop:
  "list_all P ws \<Longrightarrow> \<not> P c \<Longrightarrow> takeWhile P (ws @ c # rest) = ws"
  by (induction ws) simp_all

lemma semicolon_not_white: "\<not> isWhiteSpace CHR '';''" "\<not> isWhiteSpace CHR '':''"
  by (simp_all add: isWhiteSpace_def)

lemma matchSemicolon_hit:
  assumes "list_all isWhiteSpace ws"
  shows "matchSemicolon name val (ws @ CHR '';'' # rest) = Some (name, val, rest)"
proof -
  have t: "takeWhile isWhiteSpace (ws @ CHR '';'' # rest) = ws"
    by (rule takeWhile_stop[OF assms semicolon_not_white(1)])
  have g: "greedyLengths 0 isWhiteSpace (ws @ CHR '';'' # rest) = length ws # rev [0..<length ws]"
    using greedyLengths_hd[of 0 isWhiteSpace "ws @ CHR '';'' # rest"] by (simp add: t)
  show ?thesis unfolding matchSemicolon_def g by simp
qed

lemma takeWhile_shorter: "x \<in> set u \<Longrightarrow> \<not> P x \<Longrightarrow> length (takeWhile P u) < length u"
proof (induction u)
  case Nil
  then show ?case by simp
next
  case (Cons a u)
  show ?case
  proof (cases "P a")
    case True
    with Cons show ?thesis by auto
  next
    case False
    then show ?thesis by simp
  qed
qed

lemma takeWhile_short:
  assumes "u \<noteq> []" and "\<not> P (last u)"
  shows "length (takeWhile P (u @ t)) < length u"
proof -
  have l: "last u \<in> set u" using assms(1) by simp
  have "takeWhile P (u @ t) = takeWhile P u"
    using l assms(2) by (rule takeWhile_append1)
  moreover have "length (takeWhile P u) < length u"
    using l assms(2) by (rule takeWhile_shorter)
  ultimately show ?thesis by simp
qed

lemma upt_split3: "a \<le> b \<Longrightarrow> b \<le> c \<Longrightarrow> [a..<Suc c] = [a..<b] @ b # [Suc b..<Suc c]"
proof -
  assume ab: "a \<le> b" and bc: "b \<le> c"
  have "[a..<Suc c] = [a..<b] @ [b..<Suc c]"
    using upt_add_eq_append[OF ab, of "Suc c - b"] bc by simp
  moreover have "[b..<Suc c] = b # [Suc b..<Suc c]" using bc by (simp add: upt_conv_Cons)
  ultimately show ?thesis by simp
qed

lemma matchSemicolon_miss:
  assumes ne: "u \<noteq> []" and ns: "CHR '';'' \<notin> set u" and nw: "\<not> isWhiteSpace (last u)"
  shows "matchSemicolon name val (u @ t) = None"
  unfolding matchSemicolon_def
proof (rule firstSome_none, rule ballI)
  fix w
  assume "w \<in> set (greedyLengths 0 isWhiteSpace (u @ t))"
  then have "w \<le> length (takeWhile isWhiteSpace (u @ t))" by (auto simp: greedyLengths_def)
  with takeWhile_short[where P = isWhiteSpace and u = u and t = t, OF ne nw]
  have w: "w < length u" by simp
  then obtain c r where d: "drop w u = c # r" by (cases "drop w u") auto
  then have "c \<in> set u" by (metis in_set_dropD list.set_intros(1))
  with ns have "c \<noteq> CHR '';''" by auto
  with d w show "(case drop w (u @ t) of [] \<Rightarrow> None
       | c # rest \<Rightarrow> if c = CHR '';'' then Some (name, val, rest) else None) = None"
    by simp
qed

lemma matchValue_hit:
  assumes pre: "list_all isWhiteSpace pre" and v: "tokenValueOk V" and ws: "list_all isWhiteSpace ws"
  shows "matchValue name (pre @ V @ ws @ CHR '';'' # rest) = Some (name, V, rest)"
proof -
  let ?s' = "V @ ws @ CHR '';'' # rest"
  from v obtain c V' where V: "V = c # V'" and c: "\<not> isWhiteSpace c"
    by (cases V) (auto simp: tokenValueOk_def)
  have t: "takeWhile isWhiteSpace (pre @ ?s') = pre"
    unfolding V using takeWhile_stop[OF pre c] by simp
  have g: "greedyLengths 0 isWhiteSpace (pre @ ?s') = length pre # rev [0..<length pre]"
    using greedyLengths_hd[of 0 isWhiteSpace "pre @ ?s'"] by (simp add: t)
  have nl: "list_all (\<lambda>c. \<not> isLineTerminator c) V"
    using v by (auto simp: tokenValueOk_def list_all_iff list_ex_iff)
  have "takeWhile (\<lambda>c. \<not> isLineTerminator c) ?s' = V @ takeWhile (\<lambda>c. \<not> isLineTerminator c) (ws @ CHR '';'' # rest)"
    using nl by (simp add: takeWhile_append2 list_all_iff)
  then have m: "length V \<le> length (takeWhile (\<lambda>c. \<not> isLineTerminator c) ?s')" by simp
  have V1: "1 \<le> length V" using V by simp
  have split: "lazyLengths 1 (\<lambda>c. \<not> isLineTerminator c) ?s' =
      [1..<length V] @ length V # [Suc (length V)..<Suc (length (takeWhile (\<lambda>c. \<not> isLineTerminator c) ?s'))]"
    unfolding lazyLengths_def by (rule upt_split3[OF V1 m])
  have miss: "\<forall>k\<in>set [1..<length V]. matchSemicolon name (take k ?s') (drop k ?s') = None"
  proof
    fix k assume "k \<in> set [1..<length V]"
    then have k: "k < length V" by simp
    then have ne: "drop k V \<noteq> []" by simp
    have ns: "CHR '';'' \<notin> set (drop k V)"
      using v by (auto simp: tokenValueOk_def list_ex_iff dest: in_set_dropD)
    have "last (drop k V) = last V" using k by simp
    then have nw: "\<not> isWhiteSpace (last (drop k V))" using v by (simp add: tokenValueOk_def)
    have "drop k ?s' = drop k V @ ws @ CHR '';'' # rest" using k by simp
    then show "matchSemicolon name (take k ?s') (drop k ?s') = None"
      using matchSemicolon_miss[OF ne ns nw] by simp
  qed
  have hit: "matchSemicolon name (take (length V) ?s') (drop (length V) ?s') = Some (name, V, rest)"
    using matchSemicolon_hit[OF ws] by simp
  have inner: "firstSome (\<lambda>k. matchSemicolon name (take k ?s') (drop k ?s'))
      (lazyLengths 1 (\<lambda>c. \<not> isLineTerminator c) ?s') = Some (name, V, rest)"
    unfolding split using firstSome_skip[OF miss] hit by simp
  show ?thesis unfolding matchValue_def g using inner by simp
qed

lemma colon_not_name: "\<not> isNameChar CHR '':''" "\<not> isNameChar CHR '' ''"
  by (simp_all add: isNameChar_def isWordChar_def)

lemma matchColon_hit:
  assumes "matchValue name t = Some r"
  shows "matchColon name (CHR '':'' # t) = Some r"
proof -
  have g: "greedyLengths 0 isWhiteSpace (CHR '':'' # t) = [0]"
    by (simp add: greedyLengths_def semicolon_not_white)
  show ?thesis unfolding matchColon_def g using assms by simp
qed

lemma matchHere_hit:
  assumes n: "nameOk name" and mc: "matchColon name (CHR '':'' # t) = Some r"
  shows "matchHere (CHR ''-'' # CHR ''-'' # name @ CHR '':'' # t) = Some r"
proof -
  have tk: "takeWhile isNameChar (name @ CHR '':'' # t) = name"
    using n by (intro takeWhile_stop) (simp_all add: nameOk_def colon_not_name)
  have l: "1 \<le> length name" using n by (cases name) (simp_all add: nameOk_def)
  have g: "greedyLengths 1 isNameChar (name @ CHR '':'' # t) = length name # rev [1..<length name]"
    using greedyLengths_hd[of 1 isNameChar "name @ CHR '':'' # t"] l unfolding tk by simp
  have d: "drop 2 (CHR ''-'' # CHR ''-'' # name @ CHR '':'' # t) = name @ CHR '':'' # t"
    and tw: "take 2 (CHR ''-'' # CHR ''-'' # name @ CHR '':'' # t) = ''--''"
    by (simp_all add: numeral_2_eq_2)
  show ?thesis unfolding matchHere_def d tw g using mc by simp
qed

lemma matchHere_line:
  assumes n: "nameOk name" and v: "tokenValueOk V" and ws: "list_all isWhiteSpace ws"
  shows "matchHere (''--'' @ name @ '': '' @ V @ ws @ '';'' @ rest) = Some (name, V, rest)"
proof -
  have sp: "list_all isWhiteSpace '' ''" by (simp add: isWhiteSpace_def)
  have mv: "matchValue name ('' '' @ V @ ws @ CHR '';'' # rest) = Some (name, V, rest)"
    by (rule matchValue_hit[OF sp v ws])
  have mc: "matchColon name (CHR '':'' # '' '' @ V @ ws @ CHR '';'' # rest) = Some (name, V, rest)"
    by (rule matchColon_hit[OF mv])
  from matchHere_hit[OF n mc] show ?thesis by simp
qed

lemma matchHere_no_dash: "c \<noteq> CHR ''-'' \<Longrightarrow> matchHere (c # cs) = None"
  by (cases cs) (simp_all add: matchHere_def)

lemma execAll_skip: "CHR ''-'' \<notin> set pre \<Longrightarrow> execAll (pre @ s) = execAll s"
  by (induction pre) (auto simp: matchHere_no_dash)

lemma execAll_no_dash: "CHR ''-'' \<notin> set s \<Longrightarrow> execAll s = []"
  using execAll_skip[of s "[]"] by simp

lemma execAll_line:
  assumes n: "nameOk name" and v: "tokenValueOk V" and ws: "list_all isWhiteSpace ws"
  shows "execAll (''  --'' @ name @ '': '' @ V @ ws @ '';'' @ rest) = (name, V) # execAll rest"
proof -
  have "execAll (''  '' @ (''--'' @ name @ '': '' @ V @ ws @ '';'' @ rest)) =
        execAll (''--'' @ name @ '': '' @ V @ ws @ '';'' @ rest)"
    by (rule execAll_skip) simp
  moreover have "execAll (''--'' @ name @ '': '' @ V @ ws @ '';'' @ rest) = (name, V) # execAll rest"
    using matchHere_line[OF n v ws, of rest] by simp
  ultimately show ?thesis by simp
qed

lemma execAll_cssLine:
  assumes "entryOk tokens body e"
  shows "execAll (cssLine tokens e @ rest) = (drop 2 (snd e), body (fst e)) # execAll rest"
proof -
  from assms obtain trail where tr: "list_all isWhiteSpace trail"
    and tk: "tokens (fst e) = body (fst e) @ trail"
    and n: "nameOk (drop 2 (snd e))" and v: "tokenValueOk (body (fst e))"
    and d: "take 2 (snd e) = ''--''"
    by (auto simp: entryOk_def)
  have "snd e = take 2 (snd e) @ drop 2 (snd e)" by simp
  then have se: "snd e = ''--'' @ drop 2 (snd e)" using d by simp
  have "cssLine tokens e @ rest =
      ''  --'' @ drop 2 (snd e) @ '': '' @ body (fst e) @ trail @ '';'' @ rest"
    unfolding cssLine_def tk by (subst se) simp
  then show ?thesis using execAll_line[OF n v tr, of rest] by simp
qed

lemma execAll_lines:
  assumes ok: "\<forall>e\<in>set entries. entryOk tokens body e" and tail: "CHR ''-'' \<notin> set tail"
  shows "execAll (joinWith [CHR 0x0A] (map (cssLine tokens) entries) @ tail) =
         map (\<lambda>e. (drop 2 (snd e), body (fst e))) entries"
  using ok
proof (induction entries)
  case Nil
  then show ?case using execAll_no_dash[OF tail] by simp
next
  case (Cons e es)
  have e: "entryOk tokens body e" using Cons.prems by simp
  show ?case
  proof (cases es)
    case Nil
    then show ?thesis using execAll_cssLine[OF e, of tail] execAll_no_dash[OF tail] by simp
  next
    case (Cons e' es')
    have IH: "execAll (joinWith [CHR 0x0A] (map (cssLine tokens) es) @ tail) =
         map (\<lambda>e. (drop 2 (snd e), body (fst e))) es"
      using Cons.IH Cons.prems by simp
    have j: "joinWith [CHR 0x0A] (map (cssLine tokens) (e # es)) @ tail =
        cssLine tokens e @ ([CHR 0x0A] @ (joinWith [CHR 0x0A] (map (cssLine tokens) es) @ tail))"
      unfolding Cons by simp
    have sk: "execAll ([CHR 0x0A] @ (joinWith [CHR 0x0A] (map (cssLine tokens) es) @ tail)) =
        execAll (joinWith [CHR 0x0A] (map (cssLine tokens) es) @ tail)"
      by (rule execAll_skip) simp
    show ?thesis unfolding j execAll_cssLine[OF e] sk IH by simp
  qed
qed

lemma execAll_tokensToCss:
  assumes "\<forall>e\<in>set TOKEN_TO_VAR. entryOk tokens body e"
  shows "execAll (tokensToCss tokens) = map (\<lambda>e. (drop 2 (snd e), body (fst e))) TOKEN_TO_VAR"
proof -
  have "tokensToCss tokens =
      ('':root {'' @ [CHR 0x0A]) @ (joinWith [CHR 0x0A] (map (cssLine tokens) TOKEN_TO_VAR) @
         ([CHR 0x0A] @ ''}'' @ [CHR 0x0A]))"
    by (simp add: tokensToCss_def)
  moreover have "execAll (('':root {'' @ [CHR 0x0A]) @ (joinWith [CHR 0x0A] (map (cssLine tokens) TOKEN_TO_VAR) @
         ([CHR 0x0A] @ ''}'' @ [CHR 0x0A]))) =
      execAll (joinWith [CHR 0x0A] (map (cssLine tokens) TOKEN_TO_VAR) @ ([CHR 0x0A] @ ''}'' @ [CHR 0x0A]))"
    by (rule execAll_skip) simp
  moreover have "execAll (joinWith [CHR 0x0A] (map (cssLine tokens) TOKEN_TO_VAR) @ ([CHR 0x0A] @ ''}'' @ [CHR 0x0A])) =
      map (\<lambda>e. (drop 2 (snd e), body (fst e))) TOKEN_TO_VAR"
    by (rule execAll_lines[OF assms]) simp
  ultimately show ?thesis by simp
qed

lemma parse_fold: "parseCssToTokens css = foldl storeMatch Map.empty (execAll css)"
  by (simp add: parseCssToTokens_def)

lemma fold_entries:
  assumes "\<forall>e\<in>set entries. take 2 (snd e) = ''--'' \<and> varToToken (snd e) = Some (fst e)"
  shows "foldl storeMatch m (map (\<lambda>e. (drop 2 (snd e), body (fst e))) entries) =
         (\<lambda>k. if k \<in> fst ` set entries then Some (body k) else m k)"
  using assms
proof (induction entries arbitrary: m)
  case Nil
  then show ?case by simp
next
  case (Cons e es)
  have "snd e = take 2 (snd e) @ drop 2 (snd e)" by simp
  then have "''--'' @ drop 2 (snd e) = snd e" using Cons.prems by simp
  then have st: "storeMatch m (drop 2 (snd e), body (fst e)) = m(fst e \<mapsto> body (fst e))"
    using Cons.prems by (simp add: storeMatch_def)
  have "foldl storeMatch (m(fst e \<mapsto> body (fst e))) (map (\<lambda>e. (drop 2 (snd e), body (fst e))) es) =
      (\<lambda>k. if k \<in> fst ` set es then Some (body k) else (m(fst e \<mapsto> body (fst e))) k)"
    using Cons.IH Cons.prems by simp
  then show ?case unfolding list.map foldl.simps st by (auto intro!: ext)
qed

lemma table_ok:
  "list_all (\<lambda>e. take 2 (snd e) = ''--'' \<and> nameOk (drop 2 (snd e)) \<and> varToToken (snd e) = Some (fst e))
     TOKEN_TO_VAR"
  by code_simp

lemma keys_cover: "k \<in> fst ` set TOKEN_TO_VAR"
  by (cases k) (simp_all add: TOKEN_TO_VAR_def)

lemma round_trip_general:
  assumes "\<forall>k. tokenValueOk (body k) \<and> (\<exists>trail. list_all isWhiteSpace trail \<and> tokens k = body k @ trail)"
  shows "parseCssToTokens (tokensToCss tokens) = (\<lambda>k. Some (body k))"
proof -
  have tab: "\<forall>e\<in>set TOKEN_TO_VAR. take 2 (snd e) = ''--'' \<and> nameOk (drop 2 (snd e)) \<and>
      varToToken (snd e) = Some (fst e)"
    using table_ok by (simp add: list_all_iff)
  have ok: "\<forall>e\<in>set TOKEN_TO_VAR. entryOk tokens body e"
    using tab assms by (simp add: entryOk_def)
  have "parseCssToTokens (tokensToCss tokens) =
      foldl storeMatch Map.empty (map (\<lambda>e. (drop 2 (snd e), body (fst e))) TOKEN_TO_VAR)"
    by (simp add: parse_fold execAll_tokensToCss[OF ok])
  also have "\<dots> = (\<lambda>k. if k \<in> fst ` set TOKEN_TO_VAR then Some (body k) else Map.empty k)"
    by (rule fold_entries) (use tab in simp)
  also have "\<dots> = (\<lambda>k. Some (body k))" by (simp add: keys_cover)
  finally show ?thesis .
qed

lemma default_values_ok: "tokenValueOk (DEFAULT_TOKENS k)"
  by (cases k) (simp_all add: tokenValueOk_def isWhiteSpace_def isLineTerminator_def)

text \<open>
  Claim C9 as stated (parsing the serialized style sheet gives back every record) fails:
  a value that ends in a space comes back without the space, since \<open>\s*;\<close> takes the space
  for the white space before the semicolon.
\<close>

theorem token_css_round_trip_loses_space:
  "(DEFAULT_TOKENS(slideRadius := ''10px '')) slideRadius = ''10px '' \<and>
   parseCssToTokens (tokensToCss (DEFAULT_TOKENS(slideRadius := ''10px ''))) slideRadius = Some ''10px''"
proof -
  let ?t = "DEFAULT_TOKENS(slideRadius := ''10px '')"
  have "\<forall>k. tokenValueOk (DEFAULT_TOKENS k) \<and>
      (\<exists>trail. list_all isWhiteSpace trail \<and> ?t k = DEFAULT_TOKENS k @ trail)"
  proof
    fix k
    have "\<exists>trail. list_all isWhiteSpace trail \<and> ?t k = DEFAULT_TOKENS k @ trail"
    proof (cases "k = slideRadius")
      case True
      have "list_all isWhiteSpace '' '' \<and> ?t k = DEFAULT_TOKENS k @ '' ''"
        using True by (simp add: isWhiteSpace_def)
      then show ?thesis by blast
    next
      case False
      then have "list_all isWhiteSpace [] \<and> ?t k = DEFAULT_TOKENS k @ []" by simp
      then show ?thesis by blast
    qed
    then show "tokenValueOk (DEFAULT_TOKENS k) \<and>
      (\<exists>trail. list_all isWhiteSpace trail \<and> ?t k = DEFAULT_TOKENS k @ trail)"
      using default_values_ok by simp
  qed
  then have r: "parseCssToTokens (tokensToCss ?t) = (\<lambda>k. Some (DEFAULT_TOKENS k))"
    by (rule round_trip_general)
  have "parseCssToTokens (tokensToCss ?t) slideRadius = Some (DEFAULT_TOKENS slideRadius)"
    unfolding r ..
  then show ?thesis by simp
qed

text \<open>
  Claim C9, amended.  For every \<open>SlideTokens\<close> record whose 28 values are each non-empty,
  free of \<open>;\<close> and of line terminators, and without white space at their start and end,
  \<open>parseCssToTokens(tokensToCss(tokens))\<close> has every key of the record, with the record's
  value.
\<close>

theorem token_css_round_trip:
  assumes "\<forall>k. tokenValueOk (tokens k)"
  shows "parseCssToTokens (tokensToCss tokens) = (\<lambda>k. Some (tokens k))"
proof (rule round_trip_general)
  show "\<forall>k. tokenValueOk (tokens k) \<and> (\<exists>trail. list_all isWhiteSpace trail \<and> tokens k = tokens k @ trail)"
    using assms by simp
qed

theorem token_css_round_trip_witness:
  "list_all (\<lambda>k. tokenValueOk (DEFAULT_TOKENS k)) (map fst TOKEN_TO_VAR) \<and>
   map (parseCssToTokens (tokensToCss DEFAULT_TOKENS)) (map fst TOKEN_TO_VAR) =
     map (\<lambda>k. Some (DEFAULT_TOKENS k)) (map fst TOKEN_TO_VAR) \<and>
   parseCssToTokens (tokensToCss DEFAULT_TOKENS) slideHeadingFont = Some ''var(--slide-font-family)''"
proof -
  have h: "\<forall>k. tokenValueOk (DEFAULT_TOKENS k)" using default_values_ok by simp
  from token_css_round_trip[OF h] h show ?thesis by (simp add: list_all_iff)
qed

end
